theory Spec2Isabelle
  imports Main
begin

section \<open>The configuration headers of CAsyncDNSResolver\<close>

text \<open>
  The repository fragment consists of two C headers,
  \<^verbatim>\<open>Sources/CAsyncDNSResolver/include/ares_build.h\<close> and
  \<^verbatim>\<open>Sources/CAsyncDNSResolver/include/CAsyncDNSResolver.h\<close>.
  They contain preprocessing directives and two \<^verbatim>\<open>typedef\<close> lines.
  Each directive is embedded as a function on the state of a translation
  unit that is being preprocessed; a header is the sequence of its
  directives, in the order of its lines.
\<close>

subsection \<open>Tokens, headers and the state of a translation unit\<close>

text \<open>
  A token is an identifier, which macro replacement looks at, or any other
  token (a punctuator, a number).
\<close>

type_synonym ident = string

datatype token = Ident ident | Other string

text \<open>\<^verbatim>\<open>#include <h>\<close> names a header of the platform, \<^verbatim>\<open>#include "h"\<close> a file.\<close>

datatype header = Sys string | Local string

text \<open>
  The macro table maps a macro name to its replacement list; the first entry
  for a name is the current one. The type table maps a typedef name to the
  type it denotes, written as a list of type keywords.
\<close>

type_synonym macro_table = "(ident \<times> token list) list"
type_synonym type_table = "(ident \<times> ident list) list"

text \<open>
  What a translation unit has received so far: a macro definition, the
  inclusion of a header, a typedef declaration (type tokens, declared name),
  or any other line of program text.
\<close>

datatype item =
    Define ident "token list"
  | Include header
  | Typedef "token list" ident
  | Code "token list"

text \<open>The ways in which translation stops.\<close>

datatype error =
    MissingHeader header
  | UndefinedType "token list"
  | Malformed "token list"
  | Redeclared ident

record pp_state =
  macros :: macro_table
  types :: type_table
  out :: "item list"

type_synonym directive = "pp_state \<Rightarrow> error + pp_state"

text \<open>
  The headers that are not part of the fragment (the system headers,
  \<^verbatim>\<open>ares_config.h\<close> and the vendored \<^verbatim>\<open>ares.h\<close>) are a parameter:
  a platform says for each header whether it exists and, if it does, how
  its inclusion changes the macro table and the type table.
\<close>

type_synonym platform =
  "header \<Rightarrow> (macro_table \<times> type_table \<Rightarrow> macro_table \<times> type_table) option"

subsection \<open>Macro replacement\<close>

definition is_defined :: "ident \<Rightarrow> pp_state \<Rightarrow> bool" where
  "is_defined n s = (map_of (macros s) n \<noteq> None)"

text \<open>
  An identifier that names an object-like macro is replaced by the macro's
  replacement list, which is rescanned; a macro is not replaced again inside
  its own replacement (the names in \<open>hs\<close>).
\<close>

function expand_tok :: "macro_table \<Rightarrow> ident list \<Rightarrow> token \<Rightarrow> token list" where
  "expand_tok m hs (Other p) = [Other p]"
| "expand_tok m hs (Ident x) =
     (if x \<in> set hs then [Ident x]
      else case map_of m x of
             None \<Rightarrow> [Ident x]
           | Some body \<Rightarrow> concat (map (expand_tok m (x # hs)) body))"
  by pat_completeness auto
termination
proof (relation "measure (\<lambda>(m, hs, t). card (fst ` set m - set hs))")
  show "wf (measure (\<lambda>(m, hs, t). card (fst ` set m - set hs)))"
    by simp
next
  fix m :: macro_table and hs :: "ident list" and x :: ident
    and body :: "token list" and t :: token
  assume fresh: "x \<notin> set hs" and look: "map_of m x = Some body"
  from look have "x \<in> fst ` set m"
    by (metis domI dom_map_of_conv_image_fst)
  with fresh have "fst ` set m - set (x # hs) \<subset> fst ` set m - set hs"
    by auto
  then have "card (fst ` set m - set (x # hs)) < card (fst ` set m - set hs)"
    by (intro psubset_card_mono) simp_all
  then show "((m, x # hs, t), (m, hs, Ident x))
      \<in> measure (\<lambda>(m, hs, t). card (fst ` set m - set hs))"
    by simp
qed

definition expand :: "macro_table \<Rightarrow> token list \<Rightarrow> token list" where
  "expand m ts = concat (map (expand_tok m []) ts)"

subsection \<open>Typedef declarations\<close>

definition builtin :: "ident list" where
  "builtin = [''void'', ''char'', ''short'', ''int'', ''long'', ''float'',
              ''double'', ''signed'', ''unsigned'']"

fun type_word :: "token \<Rightarrow> bool" where
  "type_word (Ident x) = (x \<in> set builtin)"
| "type_word (Other p) = False"

fun word_of :: "token \<Rightarrow> ident" where
  "word_of (Ident x) = x"
| "word_of (Other p) = p"

text \<open>
  The type that a list of type tokens denotes: a typedef name in scope
  denotes what it was declared as, type keywords denote themselves, and
  anything else is not a type.
\<close>

fun resolve :: "type_table \<Rightarrow> token list \<Rightarrow> ident list option" where
  "resolve t [Ident x] =
     (case map_of t x of
        Some u \<Rightarrow> Some u
      | None \<Rightarrow> if x \<in> set builtin then Some [x] else None)"
| "resolve t ts =
     (if ts \<noteq> [] \<and> list_all type_word ts then Some (map word_of ts) else None)"

text \<open>
  The tokens after the keyword \<^verbatim>\<open>typedef\<close>, up to the semicolon: type
  tokens followed by the declared name.
\<close>

definition parse_typedef :: "token list \<Rightarrow> (token list \<times> ident) option" where
  "parse_typedef ts =
     (case rev ts of
        Other semi # Ident a # t # rty \<Rightarrow>
          if semi = '';'' then Some (rev (t # rty), a) else None
      | _ \<Rightarrow> None)"

subsection \<open>Directives\<close>

text \<open>
  \<^verbatim>\<open>#define n body\<close>: the new definition is the current one from here on.
  Where the name is defined already with another replacement list, the
  compilers that build the package warn and go on with the new definition,
  and so does the model.
\<close>

definition pp_define :: "ident \<Rightarrow> token list \<Rightarrow> directive" where
  "pp_define n body s =
     Inr (s\<lparr>macros := (n, body) # macros s, out := out s @ [Define n body]\<rparr>)"

text \<open>\<^verbatim>\<open>#ifdef n ... #endif\<close> and \<^verbatim>\<open>#ifndef n ... #endif\<close>.\<close>

definition pp_ifdef :: "ident \<Rightarrow> directive \<Rightarrow> directive" where
  "pp_ifdef n d s = (if is_defined n s then d s else Inr s)"

definition pp_ifndef :: "ident \<Rightarrow> directive \<Rightarrow> directive" where
  "pp_ifndef n d s = (if is_defined n s then Inr s else d s)"

text \<open>The lines of a group, one after the other, up to the first error.\<close>

fun pp_seq :: "directive list \<Rightarrow> directive" where
  "pp_seq [] s = Inr s"
| "pp_seq (d # ds) s = (case d s of Inl e \<Rightarrow> Inl e | Inr s' \<Rightarrow> pp_seq ds s')"

text \<open>
  \<^verbatim>\<open>#include\<close> of a header of the platform: translation stops if the
  header does not exist.
\<close>

definition pp_include :: "platform \<Rightarrow> header \<Rightarrow> directive" where
  "pp_include ext h s =
     (case ext h of
        None \<Rightarrow> Inl (MissingHeader h)
      | Some f \<Rightarrow>
          (case f (macros s, types s) of
             (m, t) \<Rightarrow> Inr (s\<lparr>macros := m, types := t, out := out s @ [Include h]\<rparr>)))"

text \<open>\<^verbatim>\<open>#include\<close> of a header of the fragment, given by its directives.\<close>

definition pp_include_file :: "header \<Rightarrow> directive \<Rightarrow> directive" where
  "pp_include_file h body s = body (s\<lparr>out := out s @ [Include h]\<rparr>)"

text \<open>
  A line of program text is macro-replaced. A typedef declaration whose
  type is known enters the declared name into the type table; declaring a
  name again is accepted only with the same type. Any other line is passed
  on as code.
\<close>

definition pp_text :: "token list \<Rightarrow> directive" where
  "pp_text line s =
     (let ts = expand (macros s) line in
      case ts of
        Ident kw # rest \<Rightarrow>
          if kw = ''typedef'' then
            (case parse_typedef rest of
               None \<Rightarrow> Inl (Malformed ts)
             | Some (ty, a) \<Rightarrow>
                 (case resolve (types s) ty of
                    None \<Rightarrow> Inl (UndefinedType ty)
                  | Some u \<Rightarrow>
                      (case map_of (types s) a of
                         None \<Rightarrow>
                           Inr (s\<lparr>types := (a, u) # types s,
                                  out := out s @ [Typedef ty a]\<rparr>)
                       | Some u' \<Rightarrow>
                           if u' = u then Inr (s\<lparr>out := out s @ [Typedef ty a]\<rparr>)
                           else Inl (Redeclared a))))
          else Inr (s\<lparr>out := out s @ [Code ts]\<rparr>)
      | _ \<Rightarrow> Inr (s\<lparr>out := out s @ [Code ts]\<rparr>))"

subsection \<open>ares\_build.h\<close>

text \<open>
  Lines 31 to 49: one guarded inclusion for each platform flag.
\<close>

definition inc_sys_types :: "platform \<Rightarrow> directive" where
  "inc_sys_types ext =
     pp_ifdef ''CARES_HAVE_SYS_TYPES_H'' (pp_include ext (Sys ''sys/types.h''))"

definition inc_sys_socket :: "platform \<Rightarrow> directive" where
  "inc_sys_socket ext =
     pp_ifdef ''CARES_HAVE_SYS_SOCKET_H'' (pp_include ext (Sys ''sys/socket.h''))"

definition inc_winsock2 :: "platform \<Rightarrow> directive" where
  "inc_winsock2 ext =
     pp_ifdef ''CARES_HAVE_WINSOCK2_H'' (pp_include ext (Sys ''winsock2.h''))"

definition inc_ws2tcpip :: "platform \<Rightarrow> directive" where
  "inc_ws2tcpip ext =
     pp_ifdef ''CARES_HAVE_WS2TCPIP_H'' (pp_include ext (Sys ''ws2tcpip.h''))"

definition inc_windows :: "platform \<Rightarrow> directive" where
  "inc_windows ext =
     pp_ifdef ''CARES_HAVE_WINDOWS_H'' (pp_include ext (Sys ''windows.h''))"

text \<open>Lines 52 and 53, as tokens.\<close>

definition typedef_socklen :: "token list" where
  "typedef_socklen =
     [Ident ''typedef'', Ident ''CARES_TYPEOF_ARES_SOCKLEN_T'',
      Ident ''ares_socklen_t'', Other '';'']"

definition typedef_ssize :: "token list" where
  "typedef_ssize =
     [Ident ''typedef'', Ident ''CARES_TYPEOF_ARES_SSIZE_T'',
      Ident ''ares_ssize_t'', Other '';'']"

text \<open>
  Lines 15 to 55. The lines 26 to 29 are comments and contribute nothing.
\<close>

definition ares_build_h :: "platform \<Rightarrow> directive" where
  "ares_build_h ext =
     pp_ifndef ''__CARES_BUILD_H'' (pp_seq
       [pp_define ''__CARES_BUILD_H'' [],
        pp_define ''CARES_TYPEOF_ARES_SOCKLEN_T'' [Ident ''socklen_t''],
        pp_define ''CARES_TYPEOF_ARES_SSIZE_T'' [Ident ''ssize_t''],
        pp_define ''CARES_HAVE_SYS_TYPES_H'' [],
        pp_define ''CARES_HAVE_SYS_SOCKET_H'' [],
        inc_sys_types ext,
        inc_sys_socket ext,
        inc_winsock2 ext,
        inc_ws2tcpip ext,
        inc_windows ext,
        pp_text typedef_socklen,
        pp_text typedef_ssize])"

subsection \<open>CAsyncDNSResolver.h\<close>

text \<open>Lines 15 to 25.\<close>

definition CAsyncDNSResolver_h :: "platform \<Rightarrow> directive" where
  "CAsyncDNSResolver_h ext =
     pp_ifndef ''C_ASYNC_RESOLVER_H'' (pp_seq
       [pp_define ''C_ASYNC_RESOLVER_H'' [],
        pp_include ext (Sys ''arpa/inet.h''),
        pp_include ext (Sys ''netdb.h''),
        pp_include_file (Local ''ares_build.h'') (ares_build_h ext),
        pp_include ext (Local ''ares_config.h''),
        pp_include ext (Local ''../c-ares/include/ares.h'')])"


subsection \<open>Names the headers rely on\<close>

text \<open>
  The macro names that the two headers define or test, and the identifiers
  of the two typedef lines.
\<close>

definition shim_names :: "ident list" where
  "shim_names =
     [''C_ASYNC_RESOLVER_H'', ''__CARES_BUILD_H'',
      ''CARES_TYPEOF_ARES_SOCKLEN_T'', ''CARES_TYPEOF_ARES_SSIZE_T'',
      ''CARES_HAVE_SYS_TYPES_H'', ''CARES_HAVE_SYS_SOCKET_H'',
      ''CARES_HAVE_WINSOCK2_H'', ''CARES_HAVE_WS2TCPIP_H'', ''CARES_HAVE_WINDOWS_H'',
      ''typedef'', ''socklen_t'', ''ssize_t'', ''ares_socklen_t'', ''ares_ssize_t'']"

definition shim_aliases :: "ident list" where
  "shim_aliases = [''ares_socklen_t'', ''ares_ssize_t'']"

text \<open>Two states agree on the macros, or on the aliases, that the headers use.\<close>

definition same_names :: "pp_state \<Rightarrow> pp_state \<Rightarrow> bool" where
  "same_names s s' = (\<forall>n \<in> set shim_names. map_of (macros s') n = map_of (macros s) n)"

definition same_aliases :: "pp_state \<Rightarrow> pp_state \<Rightarrow> bool" where
  "same_aliases s s' = (\<forall>a \<in> set shim_aliases. map_of (types s') a = map_of (types s) a)"

text \<open>
  A platform keeps the names when none of its headers defines or undefines
  a macro of \<open>shim_names\<close> or declares one of the two aliases.
\<close>

definition keeps_names :: "platform \<Rightarrow> bool" where
  "keeps_names ext =
     (\<forall>h f m t. ext h = Some f \<longrightarrow>
        (\<forall>n \<in> set shim_names. map_of (fst (f (m, t))) n = map_of m n) \<and>
        (\<forall>a \<in> set shim_aliases. map_of (snd (f (m, t))) a = map_of t a))"

text \<open>
  The three flags for Windows headers. A state has no Windows flag when
  none of them is defined. A platform defines no Windows flag when no
  header of it defines one of them that was undefined; it keeps the Windows
  flags when no header of it defines or undefines one of them.
\<close>

definition win_flags :: "ident list" where
  "win_flags = [''CARES_HAVE_WINSOCK2_H'', ''CARES_HAVE_WS2TCPIP_H'', ''CARES_HAVE_WINDOWS_H'']"

definition no_win_flag :: "pp_state \<Rightarrow> bool" where
  "no_win_flag s = (\<forall>n \<in> set win_flags. \<not> is_defined n s)"

definition defines_no_win_flag :: "platform \<Rightarrow> bool" where
  "defines_no_win_flag ext =
     (\<forall>h f m t. ext h = Some f \<longrightarrow>
        (\<forall>n \<in> set win_flags. map_of m n = None \<longrightarrow> map_of (fst (f (m, t))) n = None))"

definition keeps_win_flags :: "platform \<Rightarrow> bool" where
  "keeps_win_flags ext =
     (\<forall>h f m t. ext h = Some f \<longrightarrow>
        (\<forall>n \<in> set win_flags. map_of (fst (f (m, t))) n = map_of m n))"

text \<open>
  The identifiers of the two typedef lines are not macros of the including
  translation unit.
\<close>

definition words_free :: "pp_state \<Rightarrow> bool" where
  "words_free s =
     (\<forall>n \<in> set [''typedef'', ''socklen_t'', ''ssize_t'', ''ares_socklen_t'', ''ares_ssize_t''].
        \<not> is_defined n s)"

subsection \<open>Observing an expansion\<close>

text \<open>What an expansion from \<open>s\<close> to \<open>s'\<close> added to the translation unit.\<close>

definition emitted :: "pp_state \<Rightarrow> pp_state \<Rightarrow> item list" where
  "emitted s s' = drop (length (out s)) (out s')"

text \<open>
  The expansion reached an \<^verbatim>\<open>#include\<close> of \<open>h\<close>: the header was included,
  or translation stopped because it is missing.
\<close>

definition reaches :: "header \<Rightarrow> pp_state \<Rightarrow> error + pp_state \<Rightarrow> bool" where
  "reaches h s r =
     (case r of
        Inl e \<Rightarrow> e = MissingHeader h
      | Inr s' \<Rightarrow> Include h \<in> set (emitted s s'))"

text \<open>\<open>a\<close> occurs before the first occurrence of \<open>b\<close>.\<close>

definition precedes :: "item \<Rightarrow> item \<Rightarrow> item list \<Rightarrow> bool" where
  "precedes a b xs = (b \<in> set xs \<and> a \<in> set (takeWhile (\<lambda>x. x \<noteq> b) xs))"

fun defined_names :: "item list \<Rightarrow> ident list" where
  "defined_names [] = []"
| "defined_names (Define n b # xs) = n # defined_names xs"
| "defined_names (x # xs) = defined_names xs"

fun is_typedef :: "item \<Rightarrow> bool" where
  "is_typedef (Typedef ty a) = True"
| "is_typedef x = False"

fun is_text :: "item \<Rightarrow> bool" where
  "is_text (Typedef ty a) = True"
| "is_text (Code ts) = True"
| "is_text x = False"

text \<open>
  An item that can have an effect when the program runs: neither a macro
  definition nor an inclusion nor a typedef declaration.
\<close>

fun is_code :: "item \<Rightarrow> bool" where
  "is_code (Code ts) = True"
| "is_code x = False"

fun decl_error :: "error \<Rightarrow> bool" where
  "decl_error (MissingHeader h) = False"
| "decl_error e = True"

text \<open>The flags of \<^verbatim>\<open>ares_build.h\<close> and the headers they stand for.\<close>

definition flag_headers :: "(ident \<times> header) list" where
  "flag_headers =
     [(''CARES_HAVE_SYS_TYPES_H'', Sys ''sys/types.h''),
      (''CARES_HAVE_SYS_SOCKET_H'', Sys ''sys/socket.h''),
      (''CARES_HAVE_WINSOCK2_H'', Sys ''winsock2.h''),
      (''CARES_HAVE_WS2TCPIP_H'', Sys ''ws2tcpip.h''),
      (''CARES_HAVE_WINDOWS_H'', Sys ''windows.h'')]"


definition guarded :: "platform \<Rightarrow> ident \<times> header \<Rightarrow> directive" where
  "guarded ext fh = pp_ifdef (fst fh) (pp_include ext (snd fh))"

text \<open>
  What a first inclusion of \<^verbatim>\<open>ares_build.h\<close> defines, in the order of the
  lines, and the macro table entries this makes.
\<close>

definition build_defines :: "item list" where
  "build_defines =
     [Define ''__CARES_BUILD_H'' [],
      Define ''CARES_TYPEOF_ARES_SOCKLEN_T'' [Ident ''socklen_t''],
      Define ''CARES_TYPEOF_ARES_SSIZE_T'' [Ident ''ssize_t''],
      Define ''CARES_HAVE_SYS_TYPES_H'' [],
      Define ''CARES_HAVE_SYS_SOCKET_H'' []]"

definition build_macros :: macro_table where
  "build_macros =
     [(''CARES_HAVE_SYS_SOCKET_H'', []),
      (''CARES_HAVE_SYS_TYPES_H'', []),
      (''CARES_TYPEOF_ARES_SSIZE_T'', [Ident ''ssize_t'']),
      (''CARES_TYPEOF_ARES_SOCKLEN_T'', [Ident ''socklen_t'']),
      (''__CARES_BUILD_H'', [])]"

text \<open>The state after the lines 16 to 25.\<close>

definition after_defines :: "pp_state \<Rightarrow> pp_state" where
  "after_defines s = s\<lparr>macros := build_macros @ macros s, out := out s @ build_defines\<rparr>"

text \<open>The state after line 16 of \<^verbatim>\<open>CAsyncDNSResolver.h\<close>.\<close>

definition after_guard :: "pp_state \<Rightarrow> pp_state" where
  "after_guard s =
     s\<lparr>macros := (''C_ASYNC_RESOLVER_H'', []) # macros s,
       out := out s @ [Define ''C_ASYNC_RESOLVER_H'' []]\<rparr>"

definition ares_h :: header where
  "ares_h = Local ''../c-ares/include/ares.h''"

definition win_includes :: "pp_state \<Rightarrow> item list" where
  "win_includes s =
     (if is_defined ''CARES_HAVE_WINSOCK2_H'' s then [Include (Sys ''winsock2.h'')] else []) @
     (if is_defined ''CARES_HAVE_WS2TCPIP_H'' s then [Include (Sys ''ws2tcpip.h'')] else []) @
     (if is_defined ''CARES_HAVE_WINDOWS_H'' s then [Include (Sys ''windows.h'')] else [])"

definition build_typedefs :: "item list" where
  "build_typedefs =
     [Typedef [Ident ''socklen_t''] ''ares_socklen_t'',
      Typedef [Ident ''ssize_t''] ''ares_ssize_t'']"

text \<open>
  Items that are configuration only: no code, and of typedef declarations
  none or the two of \<^verbatim>\<open>ares_build.h\<close>.
\<close>

definition config_only :: "item list \<Rightarrow> bool" where
  "config_only xs =
     (list_all (\<lambda>it. \<not> is_code it) xs
      \<and> (filter is_typedef xs = [] \<or> filter is_typedef xs = build_typedefs))"


subsection \<open>Example platforms\<close>

text \<open>
  A POSIX platform whose \<^verbatim>\<open>sys/socket.h\<close> declares \<^verbatim>\<open>socklen_t\<close> as \<open>u\<close>
  and whose \<^verbatim>\<open>sys/types.h\<close> declares \<^verbatim>\<open>ssize_t\<close> as \<open>v\<close>. It has no Windows
  header.
\<close>

definition posix_with :: "ident list \<Rightarrow> ident list \<Rightarrow> platform" where
  "posix_with u v h =
     (if h = Sys ''sys/types.h'' then
        Some (\<lambda>(m, t). ((''_SYS_TYPES_H'', []) # m, (''ssize_t'', v) # t))
      else if h = Sys ''sys/socket.h'' then
        Some (\<lambda>(m, t). ((''_SYS_SOCKET_H'', []) # m, (''socklen_t'', u) # t))
      else if h = Sys ''arpa/inet.h'' then
        Some (\<lambda>(m, t). (m, (''in_addr_t'', [''unsigned'', ''int'']) # t))
      else if h = Sys ''netdb.h'' then
        Some (\<lambda>(m, t). ((''_NETDB_H'', []) # m, t))
      else if h = Local ''ares_config.h'' then
        Some (\<lambda>(m, t). ((''HAVE_NETDB_H'', [Other ''1'']) # m, t))
      else if h = Local ''../c-ares/include/ares.h'' then
        Some (\<lambda>(m, t). ((''ARES__H'', []) # m, (''ares_socket_t'', [''int'']) # t))
      else None)"

definition posix :: platform where
  "posix = posix_with [''unsigned'', ''int''] [''long'']"

text \<open>A platform that also has the three Windows headers.\<close>

definition with_windows :: "platform \<Rightarrow> platform" where
  "with_windows ext h =
     (if h = Sys ''winsock2.h'' \<or> h = Sys ''ws2tcpip.h'' \<or> h = Sys ''windows.h''
      then Some (\<lambda>e. e) else ext h)"


text \<open>
  An empty translation unit, and one compiled with
  \<^verbatim>\<open>-DCARES_HAVE_WINSOCK2_H\<close>.
\<close>

definition start :: pp_state where
  "start = \<lparr>macros = [], types = [], out = []\<rparr>"

definition flagged :: pp_state where
  "flagged = \<lparr>macros = [(''CARES_HAVE_WINSOCK2_H'', [Other ''1''])], types = [], out = []\<rparr>"

text \<open>
  A translation unit that has \<^verbatim>\<open>#define typedef\<close> before it includes the
  headers.
\<close>

definition blanked :: pp_state where
  "blanked = \<lparr>macros = [(''typedef'', [])], types = [], out = []\<rparr>"

text \<open>
  The state that \<^verbatim>\<open>ares_build.h\<close> leaves when \<open>blanked\<close> includes it on
  \<open>posix\<close>, and the one it leaves when \<open>flagged\<close> includes it on \<open>posix\<close>
  with the Windows headers.
\<close>

definition blanked_built :: pp_state where
  "blanked_built =
     \<lparr>macros =
        [(''_SYS_SOCKET_H'', []), (''_SYS_TYPES_H'', []),
         (''CARES_HAVE_SYS_SOCKET_H'', []), (''CARES_HAVE_SYS_TYPES_H'', []),
         (''CARES_TYPEOF_ARES_SSIZE_T'', [Ident ''ssize_t'']),
         (''CARES_TYPEOF_ARES_SOCKLEN_T'', [Ident ''socklen_t'']),
         (''__CARES_BUILD_H'', []), (''typedef'', [])],
      types = [(''socklen_t'', [''unsigned'', ''int'']), (''ssize_t'', [''long''])],
      out =
        [Define ''__CARES_BUILD_H'' [],
         Define ''CARES_TYPEOF_ARES_SOCKLEN_T'' [Ident ''socklen_t''],
         Define ''CARES_TYPEOF_ARES_SSIZE_T'' [Ident ''ssize_t''],
         Define ''CARES_HAVE_SYS_TYPES_H'' [],
         Define ''CARES_HAVE_SYS_SOCKET_H'' [],
         Include (Sys ''sys/types.h''), Include (Sys ''sys/socket.h''),
         Code [Ident ''socklen_t'', Ident ''ares_socklen_t'', Other '';''],
         Code [Ident ''ssize_t'', Ident ''ares_ssize_t'', Other '';'']]\<rparr>"

definition flagged_built :: pp_state where
  "flagged_built =
     \<lparr>macros =
        [(''_SYS_SOCKET_H'', []), (''_SYS_TYPES_H'', []),
         (''CARES_HAVE_SYS_SOCKET_H'', []), (''CARES_HAVE_SYS_TYPES_H'', []),
         (''CARES_TYPEOF_ARES_SSIZE_T'', [Ident ''ssize_t'']),
         (''CARES_TYPEOF_ARES_SOCKLEN_T'', [Ident ''socklen_t'']),
         (''__CARES_BUILD_H'', []), (''CARES_HAVE_WINSOCK2_H'', [Other ''1''])],
      types =
        [(''ares_ssize_t'', [''long'']), (''ares_socklen_t'', [''unsigned'', ''int'']),
         (''socklen_t'', [''unsigned'', ''int'']), (''ssize_t'', [''long''])],
      out =
        [Define ''__CARES_BUILD_H'' [],
         Define ''CARES_TYPEOF_ARES_SOCKLEN_T'' [Ident ''socklen_t''],
         Define ''CARES_TYPEOF_ARES_SSIZE_T'' [Ident ''ssize_t''],
         Define ''CARES_HAVE_SYS_TYPES_H'' [],
         Define ''CARES_HAVE_SYS_SOCKET_H'' [],
         Include (Sys ''sys/types.h''), Include (Sys ''sys/socket.h''),
         Include (Sys ''winsock2.h''),
         Typedef [Ident ''socklen_t''] ''ares_socklen_t'',
         Typedef [Ident ''ssize_t''] ''ares_ssize_t'']\<rparr>"

text \<open>
  The states that \<^verbatim>\<open>ares_build.h\<close> and \<^verbatim>\<open>CAsyncDNSResolver.h\<close> leave when
  the empty translation unit includes them on \<open>posix\<close>.
\<close>

definition posix_built :: pp_state where
  "posix_built =
     \<lparr>macros =
        [(''_SYS_SOCKET_H'', []), (''_SYS_TYPES_H'', []),
         (''CARES_HAVE_SYS_SOCKET_H'', []), (''CARES_HAVE_SYS_TYPES_H'', []),
         (''CARES_TYPEOF_ARES_SSIZE_T'', [Ident ''ssize_t'']),
         (''CARES_TYPEOF_ARES_SOCKLEN_T'', [Ident ''socklen_t'']),
         (''__CARES_BUILD_H'', [])],
      types =
        [(''ares_ssize_t'', [''long'']), (''ares_socklen_t'', [''unsigned'', ''int'']),
         (''socklen_t'', [''unsigned'', ''int'']), (''ssize_t'', [''long''])],
      out =
        [Define ''__CARES_BUILD_H'' [],
         Define ''CARES_TYPEOF_ARES_SOCKLEN_T'' [Ident ''socklen_t''],
         Define ''CARES_TYPEOF_ARES_SSIZE_T'' [Ident ''ssize_t''],
         Define ''CARES_HAVE_SYS_TYPES_H'' [],
         Define ''CARES_HAVE_SYS_SOCKET_H'' [],
         Include (Sys ''sys/types.h''), Include (Sys ''sys/socket.h''),
         Typedef [Ident ''socklen_t''] ''ares_socklen_t'',
         Typedef [Ident ''ssize_t''] ''ares_ssize_t'']\<rparr>"

definition posix_resolved :: pp_state where
  "posix_resolved =
     \<lparr>macros =
        [(''ARES__H'', []), (''HAVE_NETDB_H'', [Other ''1'']),
         (''_SYS_SOCKET_H'', []), (''_SYS_TYPES_H'', []),
         (''CARES_HAVE_SYS_SOCKET_H'', []), (''CARES_HAVE_SYS_TYPES_H'', []),
         (''CARES_TYPEOF_ARES_SSIZE_T'', [Ident ''ssize_t'']),
         (''CARES_TYPEOF_ARES_SOCKLEN_T'', [Ident ''socklen_t'']),
         (''__CARES_BUILD_H'', []), (''_NETDB_H'', []),
         (''C_ASYNC_RESOLVER_H'', [])],
      types =
        [(''ares_socket_t'', [''int'']), (''ares_ssize_t'', [''long'']),
         (''ares_socklen_t'', [''unsigned'', ''int'']),
         (''socklen_t'', [''unsigned'', ''int'']), (''ssize_t'', [''long'']),
         (''in_addr_t'', [''unsigned'', ''int''])],
      out =
        [Define ''C_ASYNC_RESOLVER_H'' [], Include (Sys ''arpa/inet.h''),
         Include (Sys ''netdb.h''), Include (Local ''ares_build.h''),
         Define ''__CARES_BUILD_H'' [],
         Define ''CARES_TYPEOF_ARES_SOCKLEN_T'' [Ident ''socklen_t''],
         Define ''CARES_TYPEOF_ARES_SSIZE_T'' [Ident ''ssize_t''],
         Define ''CARES_HAVE_SYS_TYPES_H'' [],
         Define ''CARES_HAVE_SYS_SOCKET_H'' [],
         Include (Sys ''sys/types.h''), Include (Sys ''sys/socket.h''),
         Typedef [Ident ''socklen_t''] ''ares_socklen_t'',
         Typedef [Ident ''ssize_t''] ''ares_ssize_t'',
         Include (Local ''ares_config.h''),
         Include (Local ''../c-ares/include/ares.h'')]\<rparr>"

section \<open>Properties\<close>

subsection \<open>Sequences of directives\<close>

lemma pp_seq_append:
  "pp_seq (xs @ ys) s = (case pp_seq xs s of Inl e \<Rightarrow> Inl e | Inr s1 \<Rightarrow> pp_seq ys s1)"
  by (induction xs arbitrary: s) (simp_all split: sum.splits)

lemma pp_seq_ConsE:
  assumes "pp_seq (d # ds) s = Inr s'"
  obtains s1 where "d s = Inr s1" "pp_seq ds s1 = Inr s'"
  using assms by (auto split: sum.splits)

lemma pp_seq_Cons_Inl:
  "pp_seq (d # ds) s = Inl e \<longleftrightarrow>
     d s = Inl e \<or> (\<exists>s1. d s = Inr s1 \<and> pp_seq ds s1 = Inl e)"
  by (simp split: sum.splits)

lemma emitted_append: "out s' = out s @ xs \<Longrightarrow> emitted s s' = xs"
  by (simp add: emitted_def)

subsection \<open>States that agree on the names\<close>

lemma same_names_refl: "same_names s s"
  by (simp add: same_names_def)

lemma same_names_trans: "same_names s s1 \<Longrightarrow> same_names s1 s2 \<Longrightarrow> same_names s s2"
  by (simp add: same_names_def)

lemma same_aliases_refl: "same_aliases s s"
  by (simp add: same_aliases_def)

lemma same_aliases_trans: "same_aliases s s1 \<Longrightarrow> same_aliases s1 s2 \<Longrightarrow> same_aliases s s2"
  by (simp add: same_aliases_def)

lemma same_names_defined:
  "same_names s s' \<Longrightarrow> n \<in> set shim_names \<Longrightarrow> is_defined n s' = is_defined n s"
  by (simp add: same_names_def is_defined_def)

lemma same_namesD:
  assumes "same_names s s'"
  shows "map_of (macros s') ''C_ASYNC_RESOLVER_H'' = map_of (macros s) ''C_ASYNC_RESOLVER_H''"
    "map_of (macros s') ''__CARES_BUILD_H'' = map_of (macros s) ''__CARES_BUILD_H''"
    "map_of (macros s') ''CARES_TYPEOF_ARES_SOCKLEN_T''
       = map_of (macros s) ''CARES_TYPEOF_ARES_SOCKLEN_T''"
    "map_of (macros s') ''CARES_TYPEOF_ARES_SSIZE_T''
       = map_of (macros s) ''CARES_TYPEOF_ARES_SSIZE_T''"
    "map_of (macros s') ''CARES_HAVE_SYS_TYPES_H'' = map_of (macros s) ''CARES_HAVE_SYS_TYPES_H''"
    "map_of (macros s') ''CARES_HAVE_SYS_SOCKET_H'' = map_of (macros s) ''CARES_HAVE_SYS_SOCKET_H''"
    "map_of (macros s') ''CARES_HAVE_WINSOCK2_H'' = map_of (macros s) ''CARES_HAVE_WINSOCK2_H''"
    "map_of (macros s') ''CARES_HAVE_WS2TCPIP_H'' = map_of (macros s) ''CARES_HAVE_WS2TCPIP_H''"
    "map_of (macros s') ''CARES_HAVE_WINDOWS_H'' = map_of (macros s) ''CARES_HAVE_WINDOWS_H''"
    "map_of (macros s') ''typedef'' = map_of (macros s) ''typedef''"
    "map_of (macros s') ''socklen_t'' = map_of (macros s) ''socklen_t''"
    "map_of (macros s') ''ssize_t'' = map_of (macros s) ''ssize_t''"
    "map_of (macros s') ''ares_socklen_t'' = map_of (macros s) ''ares_socklen_t''"
    "map_of (macros s') ''ares_ssize_t'' = map_of (macros s) ''ares_ssize_t''"
  using assms by (simp_all add: same_names_def shim_names_def)

lemma same_aliasesD:
  assumes "same_aliases s s'"
  shows "map_of (types s') ''ares_socklen_t'' = map_of (types s) ''ares_socklen_t''"
    "map_of (types s') ''ares_ssize_t'' = map_of (types s) ''ares_ssize_t''"
  using assms by (simp_all add: same_aliases_def shim_aliases_def)

lemma words_freeD:
  assumes "words_free s"
  shows "map_of (macros s) ''typedef'' = None" "map_of (macros s) ''socklen_t'' = None"
    "map_of (macros s) ''ssize_t'' = None" "map_of (macros s) ''ares_socklen_t'' = None"
    "map_of (macros s) ''ares_ssize_t'' = None"
  using assms by (simp_all add: words_free_def is_defined_def)

lemma words_free_same: "same_names s s' \<Longrightarrow> words_free s \<Longrightarrow> words_free s'"
  by (simp add: words_free_def is_defined_def same_namesD)

subsection \<open>Inclusion of a platform header\<close>

lemma pp_include_InrE:
  assumes "pp_include ext h s = Inr s'"
  obtains f where "ext h = Some f" "f (macros s, types s) = (macros s', types s')"
    "out s' = out s @ [Include h]"
  using assms unfolding pp_include_def
  by (auto split: option.splits prod.splits)

lemma pp_include_Inl:
  "pp_include ext h s = Inl e \<longleftrightarrow> ext h = None \<and> e = MissingHeader h"
  unfolding pp_include_def by (auto split: option.splits prod.splits)

lemma pp_include_keeps:
  assumes K: "keeps_names ext" and R: "pp_include ext h s = Inr s'"
  shows "same_names s s'" and "same_aliases s s'" and "out s' = out s @ [Include h]"
proof -
  from R obtain f where f: "ext h = Some f" "f (macros s, types s) = (macros s', types s')"
    and o: "out s' = out s @ [Include h]"
    by (rule pp_include_InrE)
  from K f(1) have "(\<forall>n \<in> set shim_names.
        map_of (fst (f (macros s, types s))) n = map_of (macros s) n) \<and>
      (\<forall>a \<in> set shim_aliases. map_of (snd (f (macros s, types s))) a = map_of (types s) a)"
    unfolding keeps_names_def by blast
  then show "same_names s s'" and "same_aliases s s'"
    by (simp_all add: f(2) same_names_def same_aliases_def)
  show "out s' = out s @ [Include h]" by (rule o)
qed

lemma guarded_cases:
  "guarded ext (fl, h) s = Inr s' \<longleftrightarrow>
     (\<not> is_defined fl s \<and> s' = s) \<or> (is_defined fl s \<and> pp_include ext h s = Inr s')"
  by (auto simp: guarded_def pp_ifdef_def)

lemma guarded_keeps:
  assumes K: "keeps_names ext" and R: "guarded ext (fl, h) s = Inr s'"
  shows "same_names s s'" and "same_aliases s s'"
    and "out s' = out s @ (if is_defined fl s then [Include h] else [])"
  using R pp_include_keeps [OF K, of h s s']
  by (auto simp: guarded_cases same_names_refl same_aliases_refl)

lemma guarded_Inl:
  "guarded ext (fl, h) s = Inl e \<longleftrightarrow> is_defined fl s \<and> ext h = None \<and> e = MissingHeader h"
  by (auto simp: guarded_def pp_ifdef_def pp_include_Inl)

text \<open>
  A run of guarded inclusions whose flags are among the kept names: the
  flags are read as they were at the start of the run.
\<close>

lemma guarded_seq_Inr:
  assumes K: "keeps_names ext" and F: "fst ` set fhs \<subseteq> set shim_names"
    and R: "pp_seq (map (guarded ext) fhs) s = Inr s'"
  shows "same_names s s' \<and> same_aliases s s'
       \<and> out s' = out s @ map (\<lambda>fh. Include (snd fh)) (filter (\<lambda>fh. is_defined (fst fh) s) fhs)"
  using F R
proof (induction fhs arbitrary: s)
  case Nil
  then show ?case by (simp add: same_names_refl same_aliases_refl)
next
  case (Cons fh fhs)
  obtain fl h where fh: "fh = (fl, h)" by (cases fh)
  from Cons.prems(2) obtain s1 where s1: "guarded ext (fl, h) s = Inr s1"
    and rest: "pp_seq (map (guarded ext) fhs) s1 = Inr s'"
    by (auto simp: fh split: sum.splits)
  note k = guarded_keeps [OF K s1]
  from Cons.prems(1) have F': "fst ` set fhs \<subseteq> set shim_names" by simp
  from Cons.IH [OF F' rest] have ih: "same_names s1 s'" "same_aliases s1 s'"
    "out s' = out s1 @ map (\<lambda>fh. Include (snd fh)) (filter (\<lambda>fh. is_defined (fst fh) s1) fhs)"
    by simp_all
  have "filter (\<lambda>fh. is_defined (fst fh) s1) fhs = filter (\<lambda>fh. is_defined (fst fh) s) fhs"
  proof (rule filter_cong [OF refl])
    fix x assume "x \<in> set fhs"
    with F' have "fst x \<in> set shim_names" by auto
    then show "is_defined (fst x) s1 = is_defined (fst x) s"
      by (rule same_names_defined [OF k(1)])
  qed
  with ih(3) k(3) have "out s' = out s
      @ map (\<lambda>fh. Include (snd fh)) (filter (\<lambda>fh. is_defined (fst fh) s) (fh # fhs))"
    by (simp add: fh)
  with same_names_trans [OF k(1) ih(1)] same_aliases_trans [OF k(2) ih(2)]
  show ?case by simp
qed


subsection \<open>Lines of program text\<close>

lemma pp_text_Inr:
  assumes "pp_text line s = Inr s'"
  shows "macros s' = macros s" and "\<exists>it. out s' = out s @ [it] \<and> is_text it"
  using assms unfolding pp_text_def Let_def
  by (auto split: list.splits token.splits if_splits option.splits prod.splits)

lemma pp_text_Inl: "pp_text line s = Inl e \<Longrightarrow> decl_error e"
  unfolding pp_text_def Let_def
  by (auto split: list.splits token.splits if_splits option.splits prod.splits)

lemma typedef_line:
  assumes "map_of m mac = Some [Ident ty]"
    and "map_of m ''typedef'' = None" and "map_of m ty = None" and "map_of m a = None"
  shows "expand m [Ident ''typedef'', Ident mac, Ident a, Other '';'']
           = [Ident ''typedef'', Ident ty, Ident a, Other '';'']"
  using assms by (auto simp: expand_def)

lemma pp_text_typedef:
  assumes "expand (macros s) line = [Ident ''typedef'', Ident ty, Ident a, Other '';'']"
  shows "pp_text line s =
     (case resolve (types s) [Ident ty] of
        None \<Rightarrow> Inl (UndefinedType [Ident ty])
      | Some u \<Rightarrow>
         (case map_of (types s) a of
            None \<Rightarrow> Inr (s\<lparr>types := (a, u) # types s, out := out s @ [Typedef [Ident ty] a]\<rparr>)
          | Some u' \<Rightarrow>
              if u' = u then Inr (s\<lparr>out := out s @ [Typedef [Ident ty] a]\<rparr>)
              else Inl (Redeclared a)))"
  using assms by (simp add: pp_text_def parse_typedef_def)


subsection \<open>Expanding ares\_build.h\<close>

lemma build_guarded: "is_defined ''__CARES_BUILD_H'' s \<Longrightarrow> ares_build_h ext s = Inr s"
  by (simp add: ares_build_h_def pp_ifndef_def)

lemma build_unfold:
  assumes "\<not> is_defined ''__CARES_BUILD_H'' s"
  shows "ares_build_h ext s =
     pp_seq (map (guarded ext) flag_headers @ [pp_text typedef_socklen, pp_text typedef_ssize])
       (after_defines s)"
  using assms
  by (simp add: ares_build_h_def pp_ifndef_def pp_define_def after_defines_def
      build_macros_def build_defines_def flag_headers_def guarded_def
      inc_sys_types_def inc_sys_socket_def inc_winsock2_def inc_ws2tcpip_def inc_windows_def)

lemma flag_headers_names: "fst ` set flag_headers \<subseteq> set shim_names"
  by (simp add: flag_headers_def shim_names_def)

lemma after_defines_simps:
  "types (after_defines s) = types s"
  "out (after_defines s) = out s @ build_defines"
  "macros (after_defines s) = build_macros @ macros s"
  by (simp_all add: after_defines_def)

lemma after_defines_flags:
  "is_defined ''CARES_HAVE_SYS_TYPES_H'' (after_defines s)"
  "is_defined ''CARES_HAVE_SYS_SOCKET_H'' (after_defines s)"
  "is_defined ''CARES_HAVE_WINSOCK2_H'' (after_defines s) = is_defined ''CARES_HAVE_WINSOCK2_H'' s"
  "is_defined ''CARES_HAVE_WS2TCPIP_H'' (after_defines s) = is_defined ''CARES_HAVE_WS2TCPIP_H'' s"
  "is_defined ''CARES_HAVE_WINDOWS_H'' (after_defines s) = is_defined ''CARES_HAVE_WINDOWS_H'' s"
  by (simp_all add: after_defines_def is_defined_def build_macros_def)

lemma flagged_includes:
  "map (\<lambda>fh. Include (snd fh)) (filter (\<lambda>fh. is_defined (fst fh) (after_defines s)) flag_headers)
     = [Include (Sys ''sys/types.h''), Include (Sys ''sys/socket.h'')] @ win_includes s"
  by (simp add: flag_headers_def after_defines_flags win_includes_def)

lemma build_phases:
  assumes G: "\<not> is_defined ''__CARES_BUILD_H'' s" and R: "ares_build_h ext s = Inr s'"
  obtains s10 s11 where
    "pp_seq (map (guarded ext) flag_headers) (after_defines s) = Inr s10"
    "pp_text typedef_socklen s10 = Inr s11"
    "pp_text typedef_ssize s11 = Inr s'"
  using R unfolding build_unfold [OF G] pp_seq_append
  by (auto split: sum.splits)

lemma build_shape:
  assumes K: "keeps_names ext" and G: "\<not> is_defined ''__CARES_BUILD_H'' s"
    and R: "ares_build_h ext s = Inr s'"
  shows "same_names (after_defines s) s'"
    and "\<exists>t1 t2. is_text t1 \<and> is_text t2 \<and>
           out s' = out s @ build_defines
             @ [Include (Sys ''sys/types.h''), Include (Sys ''sys/socket.h'')]
             @ win_includes s @ [t1, t2]"
proof -
  from G R obtain s10 s11 where
    s10: "pp_seq (map (guarded ext) flag_headers) (after_defines s) = Inr s10"
    and s11: "pp_text typedef_socklen s10 = Inr s11"
    and s12: "pp_text typedef_ssize s11 = Inr s'"
    by (rule build_phases)
  from guarded_seq_Inr [OF K flag_headers_names s10]
  have k: "same_names (after_defines s) s10"
    and o10: "out s10 = out s @ build_defines
        @ [Include (Sys ''sys/types.h''), Include (Sys ''sys/socket.h'')] @ win_includes s"
    by (simp_all add: flagged_includes after_defines_simps)
  from pp_text_Inr [OF s11] obtain t1 where
    m11: "macros s11 = macros s10" and t1: "out s11 = out s10 @ [t1]" "is_text t1"
    by blast
  from pp_text_Inr [OF s12] obtain t2 where
    m12: "macros s' = macros s11" and t2: "out s' = out s11 @ [t2]" "is_text t2"
    by blast
  from k m11 m12 show "same_names (after_defines s) s'"
    by (simp add: same_names_def)
  from o10 t1 t2 show "\<exists>t1 t2. is_text t1 \<and> is_text t2 \<and>
           out s' = out s @ build_defines
             @ [Include (Sys ''sys/types.h''), Include (Sys ''sys/socket.h'')]
             @ win_includes s @ [t1, t2]"
    by simp
qed

lemma build_first:
  assumes K: "keeps_names ext" and G: "\<not> is_defined ''__CARES_BUILD_H'' s"
    and W: "words_free s" and R: "ares_build_h ext s = Inr s'"
  shows "out s' = out s @ build_defines
           @ [Include (Sys ''sys/types.h''), Include (Sys ''sys/socket.h'')]
           @ win_includes s @ build_typedefs"
    and "\<exists>u v. map_of (types s') ''socklen_t'' = Some u
              \<and> map_of (types s') ''ares_socklen_t'' = Some u
              \<and> map_of (types s') ''ssize_t'' = Some v
              \<and> map_of (types s') ''ares_ssize_t'' = Some v"
proof -
  from G R obtain s10 s11 where
    s10: "pp_seq (map (guarded ext) flag_headers) (after_defines s) = Inr s10"
    and s11: "pp_text typedef_socklen s10 = Inr s11"
    and s12: "pp_text typedef_ssize s11 = Inr s'"
    by (rule build_phases)
  from guarded_seq_Inr [OF K flag_headers_names s10]
  have k: "same_names (after_defines s) s10"
    and o10: "out s10 = out s @ build_defines
        @ [Include (Sys ''sys/types.h''), Include (Sys ''sys/socket.h'')] @ win_includes s"
    by (simp_all add: flagged_includes after_defines_simps)
  note w = words_freeD [OF W]
  have m10: "map_of (macros s10) ''CARES_TYPEOF_ARES_SOCKLEN_T'' = Some [Ident ''socklen_t'']"
    "map_of (macros s10) ''CARES_TYPEOF_ARES_SSIZE_T'' = Some [Ident ''ssize_t'']"
    "map_of (macros s10) ''typedef'' = None" "map_of (macros s10) ''socklen_t'' = None"
    "map_of (macros s10) ''ssize_t'' = None" "map_of (macros s10) ''ares_socklen_t'' = None"
    "map_of (macros s10) ''ares_ssize_t'' = None"
    by (simp_all add: same_namesD [OF k] after_defines_simps build_macros_def w)
  have e11: "expand (macros s10) typedef_socklen
      = [Ident ''typedef'', Ident ''socklen_t'', Ident ''ares_socklen_t'', Other '';'']"
    unfolding typedef_socklen_def by (rule typedef_line) (rule m10)+
  from s11 obtain u where
    m11: "macros s11 = macros s10"
    and o11: "out s11 = out s10 @ [Typedef [Ident ''socklen_t''] ''ares_socklen_t'']"
    and t11: "map_of (types s11) ''ares_socklen_t'' = Some u"
      "map_of (types s11) ''socklen_t'' = Some u"
    unfolding pp_text_typedef [OF e11]
    by (auto simp: builtin_def split: option.splits if_splits)
  have e12: "expand (macros s11) typedef_ssize
      = [Ident ''typedef'', Ident ''ssize_t'', Ident ''ares_ssize_t'', Other '';'']"
    unfolding m11 typedef_ssize_def by (rule typedef_line) (rule m10)+
  from s12 obtain v where
    o12: "out s' = out s11 @ [Typedef [Ident ''ssize_t''] ''ares_ssize_t'']"
    and t12: "map_of (types s') ''ares_ssize_t'' = Some v"
      "map_of (types s') ''ssize_t'' = Some v"
      "map_of (types s') ''socklen_t'' = map_of (types s11) ''socklen_t''"
      "map_of (types s') ''ares_socklen_t'' = map_of (types s11) ''ares_socklen_t''"
    unfolding pp_text_typedef [OF e12]
    by (auto simp: builtin_def split: option.splits if_splits)
  show "out s' = out s @ build_defines
           @ [Include (Sys ''sys/types.h''), Include (Sys ''sys/socket.h'')]
           @ win_includes s @ build_typedefs"
    by (simp add: o12 o11 o10 build_typedefs_def)
  show "\<exists>u v. map_of (types s') ''socklen_t'' = Some u
              \<and> map_of (types s') ''ares_socklen_t'' = Some u
              \<and> map_of (types s') ''ssize_t'' = Some v
              \<and> map_of (types s') ''ares_ssize_t'' = Some v"
    by (simp add: t12 t11)
qed




subsection \<open>Expanding CAsyncDNSResolver.h\<close>

lemma resolver_guarded:
  "is_defined ''C_ASYNC_RESOLVER_H'' s \<Longrightarrow> CAsyncDNSResolver_h ext s = Inr s"
  by (simp add: CAsyncDNSResolver_h_def pp_ifndef_def)

lemma resolver_unfold:
  assumes "\<not> is_defined ''C_ASYNC_RESOLVER_H'' s"
  shows "CAsyncDNSResolver_h ext s =
     pp_seq [pp_include ext (Sys ''arpa/inet.h''), pp_include ext (Sys ''netdb.h''),
             pp_include_file (Local ''ares_build.h'') (ares_build_h ext),
             pp_include ext (Local ''ares_config.h''), pp_include ext ares_h]
       (after_guard s)"
  using assms
  by (simp add: CAsyncDNSResolver_h_def pp_ifndef_def pp_define_def after_guard_def ares_h_def)

lemma after_guard_simps:
  "types (after_guard s) = types s"
  "out (after_guard s) = out s @ [Define ''C_ASYNC_RESOLVER_H'' []]"
  "macros (after_guard s) = (''C_ASYNC_RESOLVER_H'', []) # macros s"
  by (simp_all add: after_guard_def)

lemma win_includes_same: "same_names s s' \<Longrightarrow> win_includes s' = win_includes s"
  by (simp add: win_includes_def same_names_defined shim_names_def)

lemma resolver_phases:
  assumes G: "\<not> is_defined ''C_ASYNC_RESOLVER_H'' s" and R: "CAsyncDNSResolver_h ext s = Inr s'"
  obtains t2 t3 t4 t5 where
    "pp_include ext (Sys ''arpa/inet.h'') (after_guard s) = Inr t2"
    "pp_include ext (Sys ''netdb.h'') t2 = Inr t3"
    "ares_build_h ext (t3\<lparr>out := out t3 @ [Include (Local ''ares_build.h'')]\<rparr>) = Inr t4"
    "pp_include ext (Local ''ares_config.h'') t4 = Inr t5"
    "pp_include ext ares_h t5 = Inr s'"
proof -
  from R have r1: "pp_seq [pp_include ext (Sys ''arpa/inet.h''), pp_include ext (Sys ''netdb.h''),
             pp_include_file (Local ''ares_build.h'') (ares_build_h ext),
             pp_include ext (Local ''ares_config.h''), pp_include ext ares_h]
       (after_guard s) = Inr s'"
    by (simp only: resolver_unfold [OF G])
  then obtain t2 where t2: "pp_include ext (Sys ''arpa/inet.h'') (after_guard s) = Inr t2"
    and r2: "pp_seq [pp_include ext (Sys ''netdb.h''),
             pp_include_file (Local ''ares_build.h'') (ares_build_h ext),
             pp_include ext (Local ''ares_config.h''), pp_include ext ares_h] t2 = Inr s'"
    by (rule pp_seq_ConsE)
  from r2 obtain t3 where t3: "pp_include ext (Sys ''netdb.h'') t2 = Inr t3"
    and r3: "pp_seq [pp_include_file (Local ''ares_build.h'') (ares_build_h ext),
             pp_include ext (Local ''ares_config.h''), pp_include ext ares_h] t3 = Inr s'"
    by (rule pp_seq_ConsE)
  from r3 obtain t4 where
    t4: "pp_include_file (Local ''ares_build.h'') (ares_build_h ext) t3 = Inr t4"
    and r4: "pp_seq [pp_include ext (Local ''ares_config.h''), pp_include ext ares_h] t4 = Inr s'"
    by (rule pp_seq_ConsE)
  from r4 obtain t5 where t5: "pp_include ext (Local ''ares_config.h'') t4 = Inr t5"
    and r5: "pp_seq [pp_include ext ares_h] t5 = Inr s'"
    by (rule pp_seq_ConsE)
  from r5 have t6: "pp_include ext ares_h t5 = Inr s'"
    by (simp split: sum.splits)
  from t4 have t4': "ares_build_h ext (t3\<lparr>out := out t3 @ [Include (Local ''ares_build.h'')]\<rparr>) = Inr t4"
    by (simp add: pp_include_file_def)
  show thesis by (rule that [OF t2 t3 t4' t5 t6])
qed

text \<open>
  The state in which \<^verbatim>\<open>ares_build.h\<close> is entered from
  \<^verbatim>\<open>CAsyncDNSResolver.h\<close> agrees with the including state on the names.
\<close>

lemma resolver_entry:
  assumes K: "keeps_names ext"
    and t2: "pp_include ext (Sys ''arpa/inet.h'') (after_guard s) = Inr t2"
    and t3: "pp_include ext (Sys ''netdb.h'') t2 = Inr t3"
  shows "same_names (after_guard s) (t3\<lparr>out := out t3 @ [Include (Local ''ares_build.h'')]\<rparr>)"
    and "same_aliases s (t3\<lparr>out := out t3 @ [Include (Local ''ares_build.h'')]\<rparr>)"
    and "out (t3\<lparr>out := out t3 @ [Include (Local ''ares_build.h'')]\<rparr>)
         = out s @ [Define ''C_ASYNC_RESOLVER_H'' [], Include (Sys ''arpa/inet.h''),
                    Include (Sys ''netdb.h''), Include (Local ''ares_build.h'')]"
proof -
  note k2 = pp_include_keeps [OF K t2]
  note k3 = pp_include_keeps [OF K t3]
  from same_names_trans [OF k2(1) k3(1)]
  show "same_names (after_guard s) (t3\<lparr>out := out t3 @ [Include (Local ''ares_build.h'')]\<rparr>)"
    by (simp add: same_names_def)
  from same_aliases_trans [OF k2(2) k3(2)]
  show "same_aliases s (t3\<lparr>out := out t3 @ [Include (Local ''ares_build.h'')]\<rparr>)"
    by (simp add: same_aliases_def after_guard_simps)
  show "out (t3\<lparr>out := out t3 @ [Include (Local ''ares_build.h'')]\<rparr>)
         = out s @ [Define ''C_ASYNC_RESOLVER_H'' [], Include (Sys ''arpa/inet.h''),
                    Include (Sys ''netdb.h''), Include (Local ''ares_build.h'')]"
    by (simp add: k3(3) k2(3) after_guard_simps)
qed

lemma after_guard_defined:
  "n \<noteq> ''C_ASYNC_RESOLVER_H'' \<Longrightarrow> is_defined n (after_guard s) = is_defined n s"
  "is_defined ''C_ASYNC_RESOLVER_H'' (after_guard s)"
  by (simp_all add: after_guard_def is_defined_def)

lemma after_guard_words: "words_free (after_guard s) = words_free s"
  by (simp add: words_free_def after_guard_defined)

lemma after_guard_wins: "win_includes (after_guard s) = win_includes s"
  by (simp add: win_includes_def after_guard_defined)

lemma resolver_shape:
  assumes K: "keeps_names ext" and G: "\<not> is_defined ''C_ASYNC_RESOLVER_H'' s"
    and R: "CAsyncDNSResolver_h ext s = Inr s'"
  shows "is_defined ''C_ASYNC_RESOLVER_H'' s'"
    and "\<exists>B. out s' = out s @ [Define ''C_ASYNC_RESOLVER_H'' [], Include (Sys ''arpa/inet.h''),
                    Include (Sys ''netdb.h''), Include (Local ''ares_build.h'')]
                  @ B @ [Include (Local ''ares_config.h''), Include ares_h]
          \<and> (if is_defined ''__CARES_BUILD_H'' s then B = []
             else \<exists>t1 t2. is_text t1 \<and> is_text t2 \<and>
                    B = build_defines
                      @ [Include (Sys ''sys/types.h''), Include (Sys ''sys/socket.h'')]
                      @ win_includes s @ [t1, t2])"
proof -
  from G R obtain t2 t3 t4 t5 where
    t2: "pp_include ext (Sys ''arpa/inet.h'') (after_guard s) = Inr t2"
    and t3: "pp_include ext (Sys ''netdb.h'') t2 = Inr t3"
    and t4: "ares_build_h ext (t3\<lparr>out := out t3 @ [Include (Local ''ares_build.h'')]\<rparr>) = Inr t4"
    and t5: "pp_include ext (Local ''ares_config.h'') t4 = Inr t5"
    and t6: "pp_include ext ares_h t5 = Inr s'"
    by (rule resolver_phases)
  define e where "e = t3\<lparr>out := out t3 @ [Include (Local ''ares_build.h'')]\<rparr>"
  note en = resolver_entry [OF K t2 t3, folded e_def]
  note k5 = pp_include_keeps [OF K t5]
  note k6 = pp_include_keeps [OF K t6]
  have ge: "is_defined ''__CARES_BUILD_H'' e = is_defined ''__CARES_BUILD_H'' s"
    using same_names_defined [OF en(1), of "''__CARES_BUILD_H''"]
    by (simp add: shim_names_def after_guard_defined)
  have we: "win_includes e = win_includes s"
    by (simp add: win_includes_same [OF en(1)] after_guard_wins)
  have b: "map_of (macros t4) ''C_ASYNC_RESOLVER_H'' = map_of (macros e) ''C_ASYNC_RESOLVER_H''
      \<and> (\<exists>B. out t4 = out e @ B
          \<and> (if is_defined ''__CARES_BUILD_H'' s then B = []
             else \<exists>t1 t2. is_text t1 \<and> is_text t2 \<and>
                    B = build_defines
                      @ [Include (Sys ''sys/types.h''), Include (Sys ''sys/socket.h'')]
                      @ win_includes s @ [t1, t2]))"
  proof (cases "is_defined ''__CARES_BUILD_H'' s")
    case True
    with ge t4 [folded e_def] have "t4 = e" by (simp add: build_guarded)
    with True show ?thesis by simp
  next
    case False
    with ge have g: "\<not> is_defined ''__CARES_BUILD_H'' e" by simp
    note sh = build_shape [OF K g t4 [folded e_def]]
    from same_namesD(1) [OF sh(1)]
    have "map_of (macros t4) ''C_ASYNC_RESOLVER_H'' = map_of (macros e) ''C_ASYNC_RESOLVER_H''"
      by (simp add: after_defines_simps build_macros_def)
    with sh(2) False show ?thesis by (auto simp: we)
  qed
  then have "map_of (macros s') ''C_ASYNC_RESOLVER_H''
      = map_of (macros (after_guard s)) ''C_ASYNC_RESOLVER_H''"
    by (simp add: same_namesD(1) [OF k6(1)] same_namesD(1) [OF k5(1)] same_namesD(1) [OF en(1)])
  then show "is_defined ''C_ASYNC_RESOLVER_H'' s'"
    by (simp add: is_defined_def after_guard_simps)
  from b obtain B where B: "out t4 = out e @ B"
    "if is_defined ''__CARES_BUILD_H'' s then B = []
     else \<exists>t1 t2. is_text t1 \<and> is_text t2 \<and>
            B = build_defines
              @ [Include (Sys ''sys/types.h''), Include (Sys ''sys/socket.h'')]
              @ win_includes s @ [t1, t2]"
    by blast
  have "out s' = out s @ [Define ''C_ASYNC_RESOLVER_H'' [], Include (Sys ''arpa/inet.h''),
                    Include (Sys ''netdb.h''), Include (Local ''ares_build.h'')]
                  @ B @ [Include (Local ''ares_config.h''), Include ares_h]"
    by (simp add: k6(3) k5(3) B(1) en(3))
  with B(2) show "\<exists>B. out s' = out s @ [Define ''C_ASYNC_RESOLVER_H'' [], Include (Sys ''arpa/inet.h''),
                    Include (Sys ''netdb.h''), Include (Local ''ares_build.h'')]
                  @ B @ [Include (Local ''ares_config.h''), Include ares_h]
          \<and> (if is_defined ''__CARES_BUILD_H'' s then B = []
             else \<exists>t1 t2. is_text t1 \<and> is_text t2 \<and>
                    B = build_defines
                      @ [Include (Sys ''sys/types.h''), Include (Sys ''sys/socket.h'')]
                      @ win_includes s @ [t1, t2])"
    by blast
qed


lemma resolver_first:
  assumes K: "keeps_names ext" and G: "\<not> is_defined ''C_ASYNC_RESOLVER_H'' s"
    and G': "\<not> is_defined ''__CARES_BUILD_H'' s" and W: "words_free s"
    and R: "CAsyncDNSResolver_h ext s = Inr s'"
  shows "out s' = out s @ [Define ''C_ASYNC_RESOLVER_H'' [], Include (Sys ''arpa/inet.h''),
                    Include (Sys ''netdb.h''), Include (Local ''ares_build.h'')]
           @ build_defines
           @ [Include (Sys ''sys/types.h''), Include (Sys ''sys/socket.h'')]
           @ win_includes s @ build_typedefs
           @ [Include (Local ''ares_config.h''), Include ares_h]"
    and "\<exists>f m t. ext ares_h = Some f \<and> f (m, t) = (macros s', types s')
           \<and> map_of t ''ares_socklen_t'' \<noteq> None \<and> map_of t ''ares_ssize_t'' \<noteq> None"
proof -
  from G R obtain t2 t3 t4 t5 where
    t2: "pp_include ext (Sys ''arpa/inet.h'') (after_guard s) = Inr t2"
    and t3: "pp_include ext (Sys ''netdb.h'') t2 = Inr t3"
    and t4: "ares_build_h ext (t3\<lparr>out := out t3 @ [Include (Local ''ares_build.h'')]\<rparr>) = Inr t4"
    and t5: "pp_include ext (Local ''ares_config.h'') t4 = Inr t5"
    and t6: "pp_include ext ares_h t5 = Inr s'"
    by (rule resolver_phases)
  define e where "e = t3\<lparr>out := out t3 @ [Include (Local ''ares_build.h'')]\<rparr>"
  note en = resolver_entry [OF K t2 t3, folded e_def]
  note k5 = pp_include_keeps [OF K t5]
  have g: "\<not> is_defined ''__CARES_BUILD_H'' e"
    using same_names_defined [OF en(1), of "''__CARES_BUILD_H''"] G'
    by (simp add: shim_names_def after_guard_defined)
  have wi: "win_includes e = win_includes s"
    by (simp add: win_includes_same [OF en(1)] after_guard_wins)
  have we: "words_free e"
    by (rule words_free_same [OF en(1)]) (simp add: after_guard_words W)
  note bf = build_first [OF K g we t4 [folded e_def]]
  from t6 obtain f where f: "ext ares_h = Some f" "f (macros t5, types t5) = (macros s', types s')"
    and o6: "out s' = out t5 @ [Include ares_h]"
    by (rule pp_include_InrE)
  show "out s' = out s @ [Define ''C_ASYNC_RESOLVER_H'' [], Include (Sys ''arpa/inet.h''),
                    Include (Sys ''netdb.h''), Include (Local ''ares_build.h'')]
           @ build_defines
           @ [Include (Sys ''sys/types.h''), Include (Sys ''sys/socket.h'')]
           @ win_includes s @ build_typedefs
           @ [Include (Local ''ares_config.h''), Include ares_h]"
    by (simp add: o6 k5(3) bf(1) en(3) wi)
  from bf(2) have "map_of (types t5) ''ares_socklen_t'' \<noteq> None"
    "map_of (types t5) ''ares_ssize_t'' \<noteq> None"
    by (auto simp: same_aliasesD [OF k5(2)])
  with f show "\<exists>f m t. ext ares_h = Some f \<and> f (m, t) = (macros s', types s')
           \<and> map_of t ''ares_socklen_t'' \<noteq> None \<and> map_of t ''ares_ssize_t'' \<noteq> None"
    by blast
qed


subsection \<open>The example platforms keep the names\<close>

lemma keeps_posix_with: "keeps_names (posix_with u v)"
  unfolding keeps_names_def posix_with_def shim_names_def shim_aliases_def
  by (auto split: if_splits)

lemma keeps_with_windows: "keeps_names ext \<Longrightarrow> keeps_names (with_windows ext)"
  unfolding keeps_names_def with_windows_def
  by (auto split: if_splits)



subsection \<open>The example expansions\<close>

lemmas header_defs =
  ares_build_h_def CAsyncDNSResolver_h_def pp_ifndef_def pp_ifdef_def pp_define_def
  pp_include_def pp_include_file_def pp_text_def is_defined_def expand_def parse_typedef_def
  inc_sys_types_def inc_sys_socket_def inc_winsock2_def inc_ws2tcpip_def inc_windows_def
  typedef_socklen_def typedef_ssize_def builtin_def

lemma build_posix_start: "ares_build_h posix start = Inr posix_built"
  by (simp add: header_defs posix_def posix_with_def start_def posix_built_def)

lemma resolver_posix_start: "CAsyncDNSResolver_h posix start = Inr posix_resolved"
  by (simp add: header_defs posix_def posix_with_def start_def posix_resolved_def)

lemma keeps_posix: "keeps_names posix"
  unfolding posix_def by (rule keeps_posix_with)

lemma start_free:
  "words_free start" "\<not> is_defined ''__CARES_BUILD_H'' start"
  "\<not> is_defined ''C_ASYNC_RESOLVER_H'' start"
  "\<not> is_defined ''CARES_HAVE_WINSOCK2_H'' start"
  "\<not> is_defined ''CARES_HAVE_WS2TCPIP_H'' start"
  "\<not> is_defined ''CARES_HAVE_WINDOWS_H'' start"
  by (simp_all add: words_free_def is_defined_def start_def)


subsection \<open>Macros defined by the headers\<close>

lemma defined_names_append: "defined_names (xs @ ys) = defined_names xs @ defined_names ys"
  by (induction xs rule: defined_names.induct) simp_all

lemma emitted_same: "emitted s s = []"
  by (simp add: emitted_def)

lemma guarded_seq_out:
  assumes "pp_seq (map (guarded ext) fhs) s = Inr s'"
  shows "\<exists>xs. out s' = out s @ xs \<and> defined_names xs = []"
  using assms
proof (induction fhs arbitrary: s)
  case Nil
  then show ?case by simp
next
  case (Cons fh fhs)
  obtain fl h where fh: "fh = (fl, h)" by (cases fh)
  from Cons.prems obtain s1 where s1: "guarded ext (fl, h) s = Inr s1"
    and rest: "pp_seq (map (guarded ext) fhs) s1 = Inr s'"
    by (auto simp: fh split: sum.splits)
  from s1 have "out s1 = out s \<or> out s1 = out s @ [Include h]"
    by (auto simp: guarded_cases elim: pp_include_InrE)
  moreover from Cons.IH [OF rest] obtain xs where "out s' = out s1 @ xs" "defined_names xs = []"
    by blast
  ultimately show ?case
    by (auto simp: defined_names_append)
qed

text \<open>
  C10. Every macro that an expansion of \<^verbatim>\<open>ares_build.h\<close> defines is the
  include guard \<^verbatim>\<open>__CARES_BUILD_H\<close> or begins with \<^verbatim>\<open>CARES_\<close>; on a first
  inclusion the macros defined are the guard and, in this order,
  \<^verbatim>\<open>CARES_TYPEOF_ARES_SOCKLEN_T\<close>, \<^verbatim>\<open>CARES_TYPEOF_ARES_SSIZE_T\<close>,
  \<^verbatim>\<open>CARES_HAVE_SYS_TYPES_H\<close> and \<^verbatim>\<open>CARES_HAVE_SYS_SOCKET_H\<close>. This holds on
  every platform and for every including translation unit.
\<close>

theorem build_macros_cares_prefix:
  assumes R: "ares_build_h ext s = Inr s'"
  shows "(\<forall>n \<in> set (defined_names (emitted s s')).
            n = ''__CARES_BUILD_H'' \<or> take 6 n = ''CARES_'')
       \<and> (\<not> is_defined ''__CARES_BUILD_H'' s \<longrightarrow>
            defined_names (emitted s s') =
              [''__CARES_BUILD_H'', ''CARES_TYPEOF_ARES_SOCKLEN_T'',
               ''CARES_TYPEOF_ARES_SSIZE_T'', ''CARES_HAVE_SYS_TYPES_H'',
               ''CARES_HAVE_SYS_SOCKET_H''])"
proof (cases "is_defined ''__CARES_BUILD_H'' s")
  case True
  with R have "s' = s" by (simp add: build_guarded)
  with True show ?thesis by (simp add: emitted_same)
next
  case False
  from False R obtain s10 s11 where
    s10: "pp_seq (map (guarded ext) flag_headers) (after_defines s) = Inr s10"
    and s11: "pp_text typedef_socklen s10 = Inr s11"
    and s12: "pp_text typedef_ssize s11 = Inr s'"
    by (rule build_phases)
  from guarded_seq_out [OF s10] obtain xs where
    xs: "out s10 = out s @ build_defines @ xs" "defined_names xs = []"
    by (auto simp: after_defines_simps)
  from pp_text_Inr(2) [OF s11] obtain t1 where t1: "out s11 = out s10 @ [t1]" "is_text t1"
    by blast
  from pp_text_Inr(2) [OF s12] obtain t2 where t2: "out s' = out s11 @ [t2]" "is_text t2"
    by blast
  have tt: "defined_names [t1, t2] = []"
    using t1(2) t2(2) by (cases t1; cases t2) simp_all
  have "out s' = out s @ (build_defines @ xs @ [t1, t2])"
    by (simp add: t2(1) t1(1) xs(1))
  then have "emitted s s' = build_defines @ xs @ [t1, t2]"
    by (rule emitted_append)
  then have "defined_names (emitted s s') =
      [''__CARES_BUILD_H'', ''CARES_TYPEOF_ARES_SOCKLEN_T'',
       ''CARES_TYPEOF_ARES_SSIZE_T'', ''CARES_HAVE_SYS_TYPES_H'',
       ''CARES_HAVE_SYS_SOCKET_H'']"
    by (simp add: defined_names_append xs(2) tt build_defines_def)
  then show ?thesis by simp
qed

theorem build_macros_cares_prefix_witness:
  "ares_build_h posix start = Inr posix_built
   \<and> \<not> is_defined ''__CARES_BUILD_H'' start
   \<and> defined_names (emitted start posix_built) =
       [''__CARES_BUILD_H'', ''CARES_TYPEOF_ARES_SOCKLEN_T'',
        ''CARES_TYPEOF_ARES_SSIZE_T'', ''CARES_HAVE_SYS_TYPES_H'',
        ''CARES_HAVE_SYS_SOCKET_H'']"
  using build_macros_cares_prefix [OF build_posix_start] build_posix_start start_free(2)
  by simp

subsection \<open>Include guards\<close>

text \<open>
  C9. Inclusion is idempotent: on a platform whose headers keep the names,
  the state that an inclusion of \<^verbatim>\<open>ares_build.h\<close> or of
  \<^verbatim>\<open>CAsyncDNSResolver.h\<close> leaves has the guard defined, so that including
  the header again returns this state unchanged and adds nothing to the
  translation unit.
\<close>

theorem include_guards_idempotent:
  assumes K: "keeps_names ext"
  shows "(ares_build_h ext s = Inr s1 \<longrightarrow>
            ares_build_h ext s1 = Inr s1 \<and> emitted s1 s1 = [])
       \<and> (CAsyncDNSResolver_h ext s = Inr s2 \<longrightarrow>
            CAsyncDNSResolver_h ext s2 = Inr s2 \<and> emitted s2 s2 = [])"
proof -
  have "is_defined ''__CARES_BUILD_H'' s1" if R: "ares_build_h ext s = Inr s1"
  proof (cases "is_defined ''__CARES_BUILD_H'' s")
    case True
    with R show ?thesis by (simp add: build_guarded)
  next
    case False
    from same_namesD(2) [OF build_shape(1) [OF K False R]]
    show ?thesis by (simp add: is_defined_def after_defines_simps build_macros_def)
  qed
  moreover have "is_defined ''C_ASYNC_RESOLVER_H'' s2" if R: "CAsyncDNSResolver_h ext s = Inr s2"
  proof (cases "is_defined ''C_ASYNC_RESOLVER_H'' s")
    case True
    with R show ?thesis by (simp add: resolver_guarded)
  next
    case False
    from resolver_shape(1) [OF K False R] show ?thesis .
  qed
  ultimately show ?thesis
    by (simp add: build_guarded resolver_guarded emitted_same)
qed

theorem include_guards_idempotent_witness:
  "keeps_names posix
   \<and> ares_build_h posix start = Inr posix_built
   \<and> ares_build_h posix posix_built = Inr posix_built
   \<and> CAsyncDNSResolver_h posix start = Inr posix_resolved
   \<and> CAsyncDNSResolver_h posix posix_resolved = Inr posix_resolved"
  using include_guards_idempotent [OF keeps_posix, of start posix_built posix_resolved]
    keeps_posix build_posix_start resolver_posix_start
  by simp


subsection \<open>Guarded inclusions\<close>


lemma text_not_include: "is_text t \<Longrightarrow> t \<noteq> Include h"
  by (cases t) simp_all

lemma build_defines_no_include: "Include h \<notin> set build_defines"
  by (simp add: build_defines_def)



text \<open>
  C3, as stated: no expansion of \<^verbatim>\<open>ares_build.h\<close> reaches the inclusion of a
  Windows header. This fails for a translation unit that has defined
  \<^verbatim>\<open>CARES_HAVE_WINSOCK2_H\<close> before it includes the header: the lines 26 to
  29 are comments, not \<^verbatim>\<open>#undef\<close> directives, and line 39 tests the flag.
  On the POSIX platform translation then stops at \<^verbatim>\<open>#include <winsock2.h>\<close>;
  on a platform that has the header, the header is included.
\<close>

theorem windows_header_reached:
  "reaches (Sys ''winsock2.h'') flagged (ares_build_h posix flagged)
   \<and> ares_build_h posix flagged = Inl (MissingHeader (Sys ''winsock2.h''))
   \<and> reaches (Sys ''winsock2.h'') flagged (ares_build_h (with_windows posix) flagged)"
  by (simp add: header_defs posix_def posix_with_def with_windows_def flagged_def
      reaches_def emitted_def)

subsection \<open>The Windows flags\<close>

lemma win_flags_names: "set win_flags \<subseteq> set shim_names"
  by (simp add: win_flags_def shim_names_def)

lemma keeps_names_win: "keeps_names ext \<Longrightarrow> keeps_win_flags ext"
  unfolding keeps_names_def keeps_win_flags_def using win_flags_names by blast

lemma keeps_win_defines: "keeps_win_flags ext \<Longrightarrow> defines_no_win_flag ext"
  unfolding keeps_win_flags_def defines_no_win_flag_def by simp

lemma no_win_flag_defines: "no_win_flag (after_defines s) = no_win_flag s"
  by (simp add: no_win_flag_def win_flags_def after_defines_flags)

lemma no_win_flag_include:
  assumes N: "defines_no_win_flag ext" and U: "no_win_flag s"
    and R: "pp_include ext h s = Inr s'"
  shows "no_win_flag s'"
proof -
  from R obtain f where f: "ext h = Some f" "f (macros s, types s) = (macros s', types s')"
    by (rule pp_include_InrE)
  from N f(1) have "\<forall>n \<in> set win_flags. map_of (macros s) n = None
      \<longrightarrow> map_of (fst (f (macros s, types s))) n = None"
    unfolding defines_no_win_flag_def by blast
  with U show ?thesis
    by (simp add: f(2) no_win_flag_def is_defined_def)
qed

text \<open>
  A run of guarded inclusions from a state without Windows flag: the
  inclusions under a Windows flag are skipped.
\<close>

lemma guarded_seq_skip:
  assumes N: "defines_no_win_flag ext" and U: "no_win_flag s"
  shows "case pp_seq (map (guarded ext) fhs) s of
           Inl e \<Rightarrow> \<exists>fh \<in> set fhs. fst fh \<notin> set win_flags \<and> e = MissingHeader (snd fh)
         | Inr s' \<Rightarrow> no_win_flag s' \<and>
             (\<exists>xs. out s' = out s @ xs \<and>
                (\<forall>x \<in> set xs. \<exists>fh \<in> set fhs. fst fh \<notin> set win_flags \<and> x = Include (snd fh)))"
  using U
proof (induction fhs arbitrary: s)
  case Nil
  then show ?case by simp
next
  case (Cons fh fhs)
  obtain fl h where fh: "fh = (fl, h)" by (cases fh)
  show ?case
  proof (cases "guarded ext (fl, h) s")
    case (Inl e)
    then have "is_defined fl s" "e = MissingHeader h"
      by (simp_all add: guarded_Inl)
    with Cons.prems have "fl \<notin> set win_flags"
      by (auto simp: no_win_flag_def)
    with Inl \<open>e = MissingHeader h\<close> show ?thesis
      by (simp add: fh)
  next
    case (Inr s1)
    then consider (skip) "\<not> is_defined fl s" "s1 = s"
      | (inc) "is_defined fl s" "pp_include ext h s = Inr s1"
      by (auto simp: guarded_cases)
    then have step: "no_win_flag s1 \<and>
        (out s1 = out s \<or> (fl \<notin> set win_flags \<and> out s1 = out s @ [Include h]))"
    proof cases
      case skip
      with Cons.prems show ?thesis by simp
    next
      case inc
      from inc(1) Cons.prems have "fl \<notin> set win_flags"
        by (auto simp: no_win_flag_def)
      moreover from inc(2) have "out s1 = out s @ [Include h]"
        by (rule pp_include_InrE)
      ultimately show ?thesis
        using no_win_flag_include [OF N Cons.prems inc(2)] by simp
    qed
    then have u1: "no_win_flag s1" by simp
    show ?thesis
    proof (cases "pp_seq (map (guarded ext) fhs) s1")
      case (Inl e)
      with Cons.IH [OF u1] Inr show ?thesis
        by (auto simp: fh)
    next
      case r: (Inr s')
      with Cons.IH [OF u1] obtain xs where xs: "no_win_flag s'" "out s' = out s1 @ xs"
        "\<forall>x \<in> set xs. \<exists>fh \<in> set fhs. fst fh \<notin> set win_flags \<and> x = Include (snd fh)"
        by auto
      from step consider "out s1 = out s"
        | "fl \<notin> set win_flags" "out s1 = out s @ [Include h]"
        by blast
      then have "\<exists>ys. out s' = out s @ ys \<and>
          (\<forall>x \<in> set ys. \<exists>g \<in> set (fh # fhs). fst g \<notin> set win_flags \<and> x = Include (snd g))"
      proof cases
        case 1
        with xs(2,3) show ?thesis by auto
      next
        case 2
        have "out s' = out s @ (Include h # xs)"
          by (simp add: xs(2) 2(2))
        moreover have "\<forall>x \<in> set (Include h # xs).
            \<exists>g \<in> set (fh # fhs). fst g \<notin> set win_flags \<and> x = Include (snd g)"
          using xs(3) 2(1) by (auto simp: fh)
        ultimately show ?thesis by blast
      qed
      with xs(1) Inr r show ?thesis
        by (simp add: fh)
    qed
  qed
qed

text \<open>A run of guarded inclusions on a platform that keeps the Windows flags.\<close>

lemma guarded_seq_win_flags:
  assumes K: "keeps_win_flags ext" and R: "pp_seq (map (guarded ext) fhs) s = Inr s'"
  shows "\<forall>n \<in> set win_flags. is_defined n s' = is_defined n s"
  using R
proof (induction fhs arbitrary: s)
  case Nil
  then show ?case by simp
next
  case (Cons fh fhs)
  obtain fl h where fh: "fh = (fl, h)" by (cases fh)
  from Cons.prems obtain s1 where s1: "guarded ext (fl, h) s = Inr s1"
    and rest: "pp_seq (map (guarded ext) fhs) s1 = Inr s'"
    by (auto simp: fh split: sum.splits)
  have "\<forall>n \<in> set win_flags. is_defined n s1 = is_defined n s"
  proof (cases "s1 = s")
    case True
    then show ?thesis by simp
  next
    case False
    with s1 have "pp_include ext h s = Inr s1"
      by (auto simp: guarded_cases)
    then obtain f where f: "ext h = Some f" "f (macros s, types s) = (macros s1, types s1)"
      by (rule pp_include_InrE)
    from K f(1) have "\<forall>n \<in> set win_flags.
        map_of (fst (f (macros s, types s))) n = map_of (macros s) n"
      unfolding keeps_win_flags_def by blast
    then show ?thesis
      by (simp add: f(2) is_defined_def)
  qed
  with Cons.IH [OF rest] show ?case by simp
qed

text \<open>
  C3, amended. When none of \<^verbatim>\<open>CARES_HAVE_WINSOCK2_H\<close>,
  \<^verbatim>\<open>CARES_HAVE_WS2TCPIP_H\<close> and \<^verbatim>\<open>CARES_HAVE_WINDOWS_H\<close> is defined where
  \<^verbatim>\<open>ares_build.h\<close> is included, and no header of the platform defines one
  of them, the expansion reaches no inclusion of \<^verbatim>\<open>winsock2.h\<close>,
  \<^verbatim>\<open>ws2tcpip.h\<close> or \<^verbatim>\<open>windows.h\<close>, whether it succeeds or stops, and after
  a successful expansion the three flags are still undefined. The header
  itself neither defines nor undefines them: on a platform no header of
  which defines or undefines one of them, each of the three flags is
  defined after a successful expansion exactly when it was defined before.
\<close>

theorem no_windows_header_without_flag:
  "(defines_no_win_flag ext \<longrightarrow> no_win_flag s \<longrightarrow>
       \<not> reaches (Sys ''winsock2.h'') s (ares_build_h ext s)
     \<and> \<not> reaches (Sys ''ws2tcpip.h'') s (ares_build_h ext s)
     \<and> \<not> reaches (Sys ''windows.h'') s (ares_build_h ext s)
     \<and> (\<forall>s'. ares_build_h ext s = Inr s' \<longrightarrow> no_win_flag s'))
   \<and> (keeps_win_flags ext \<longrightarrow>
        (\<forall>s'. ares_build_h ext s = Inr s' \<longrightarrow>
           (\<forall>n \<in> set win_flags. is_defined n s' = is_defined n s)))"
proof (intro conjI impI allI)
  fix s'
  assume K: "keeps_win_flags ext" and R: "ares_build_h ext s = Inr s'"
  show "\<forall>n \<in> set win_flags. is_defined n s' = is_defined n s"
  proof (cases "is_defined ''__CARES_BUILD_H'' s")
    case True
    with R show ?thesis by (simp add: build_guarded)
  next
    case False
    from False R obtain s10 s11 where
      s10: "pp_seq (map (guarded ext) flag_headers) (after_defines s) = Inr s10"
      and s11: "pp_text typedef_socklen s10 = Inr s11"
      and s12: "pp_text typedef_ssize s11 = Inr s'"
      by (rule build_phases)
    from guarded_seq_win_flags [OF K s10]
    have "\<forall>n \<in> set win_flags. is_defined n s10 = is_defined n s"
      by (simp add: win_flags_def after_defines_flags)
    moreover have "macros s' = macros s10"
      by (simp add: pp_text_Inr(1) [OF s12] pp_text_Inr(1) [OF s11])
    ultimately show ?thesis
      by (simp add: is_defined_def)
  qed
next
  assume N: "defines_no_win_flag ext" and U: "no_win_flag s"
  have main: "case ares_build_h ext s of
      Inl e \<Rightarrow> e = MissingHeader (Sys ''sys/types.h'') \<or> e = MissingHeader (Sys ''sys/socket.h'')
               \<or> decl_error e
    | Inr s' \<Rightarrow> no_win_flag s' \<and>
        (\<forall>h. Include h \<in> set (emitted s s') \<longrightarrow> h = Sys ''sys/types.h'' \<or> h = Sys ''sys/socket.h'')"
  proof (cases "is_defined ''__CARES_BUILD_H'' s")
    case True
    with U show ?thesis by (simp add: build_guarded emitted_same)
  next
    case False
    have U5: "no_win_flag (after_defines s)"
      by (simp add: no_win_flag_defines U)
    note sk = guarded_seq_skip [OF N U5, of flag_headers]
    show ?thesis
    proof (cases "pp_seq (map (guarded ext) flag_headers) (after_defines s)")
      case (Inl e)
      with sk have "e = MissingHeader (Sys ''sys/types.h'') \<or> e = MissingHeader (Sys ''sys/socket.h'')"
        by (auto simp: flag_headers_def win_flags_def)
      with Inl show ?thesis
        by (auto simp: build_unfold [OF False] pp_seq_append)
    next
      case (Inr s10)
      with sk obtain xs where u10: "no_win_flag s10"
        and o10: "out s10 = out s @ build_defines @ xs"
        and xs: "\<forall>x \<in> set xs. x = Include (Sys ''sys/types.h'') \<or> x = Include (Sys ''sys/socket.h'')"
        by (auto simp: flag_headers_def win_flags_def after_defines_simps)
      show ?thesis
      proof (cases "pp_text typedef_socklen s10")
        case l: (Inl e)
        with Inr pp_text_Inl [OF l] show ?thesis
          by (simp add: build_unfold [OF False] pp_seq_append)
      next
        case r11: (Inr s11)
        from pp_text_Inr [OF r11] obtain t1 where
          m11: "macros s11 = macros s10" and t1: "out s11 = out s10 @ [t1]" "is_text t1"
          by blast
        show ?thesis
        proof (cases "pp_text typedef_ssize s11")
          case l: (Inl e)
          with Inr r11 pp_text_Inl [OF l] show ?thesis
            by (simp add: build_unfold [OF False] pp_seq_append)
        next
          case r12: (Inr s')
          from pp_text_Inr [OF r12] obtain t2 where
            m12: "macros s' = macros s11" and t2: "out s' = out s11 @ [t2]" "is_text t2"
            by blast
          have run: "ares_build_h ext s = Inr s'"
            using Inr r11 r12 by (simp add: build_unfold [OF False] pp_seq_append)
          have "out s' = out s @ (build_defines @ xs @ [t1, t2])"
            by (simp add: t2(1) t1(1) o10)
          then have e: "emitted s s' = build_defines @ xs @ [t1, t2]"
            by (rule emitted_append)
          have u: "no_win_flag s'"
            using u10 by (simp add: no_win_flag_def is_defined_def m12 m11)
          have "h = Sys ''sys/types.h'' \<or> h = Sys ''sys/socket.h''"
            if "Include h \<in> set (emitted s s')" for h
            using that xs text_not_include [OF t1(2), of h] text_not_include [OF t2(2), of h]
            by (auto simp: e build_defines_no_include)
          with u run show ?thesis by simp
        qed
      qed
    qed
  qed
  show "\<not> reaches (Sys ''winsock2.h'') s (ares_build_h ext s)"
    using main by (auto simp: reaches_def split: sum.splits)
  show "\<not> reaches (Sys ''ws2tcpip.h'') s (ares_build_h ext s)"
    using main by (auto simp: reaches_def split: sum.splits)
  show "\<not> reaches (Sys ''windows.h'') s (ares_build_h ext s)"
    using main by (auto simp: reaches_def split: sum.splits)
  show "no_win_flag s'" if "ares_build_h ext s = Inr s'" for s'
    using main that by simp
qed

lemma build_flagged: "ares_build_h (with_windows posix) flagged = Inr flagged_built"
  by (simp add: header_defs posix_def posix_with_def with_windows_def flagged_def
      flagged_built_def)

theorem no_windows_header_without_flag_witness:
  "defines_no_win_flag posix \<and> no_win_flag start
   \<and> ares_build_h posix start = Inr posix_built
   \<and> \<not> reaches (Sys ''winsock2.h'') start (ares_build_h posix start)
   \<and> \<not> reaches (Sys ''ws2tcpip.h'') start (ares_build_h posix start)
   \<and> \<not> reaches (Sys ''windows.h'') start (ares_build_h posix start)
   \<and> no_win_flag posix_built
   \<and> keeps_win_flags (with_windows posix)
   \<and> ares_build_h (with_windows posix) flagged = Inr flagged_built
   \<and> is_defined ''CARES_HAVE_WINSOCK2_H'' flagged
   \<and> is_defined ''CARES_HAVE_WINSOCK2_H'' flagged_built
   \<and> \<not> is_defined ''CARES_HAVE_WINDOWS_H'' flagged_built"
proof -
  have k: "keeps_win_flags posix"
    by (rule keeps_names_win [OF keeps_posix])
  have d: "defines_no_win_flag posix"
    by (rule keeps_win_defines [OF k])
  have u: "no_win_flag start"
    by (simp add: no_win_flag_def win_flags_def start_free)
  have kw: "keeps_win_flags (with_windows posix)"
    by (rule keeps_names_win [OF keeps_with_windows [OF keeps_posix]])
  have f: "is_defined ''CARES_HAVE_WINSOCK2_H'' flagged"
    "\<not> is_defined ''CARES_HAVE_WINDOWS_H'' flagged"
    by (simp_all add: is_defined_def flagged_def)
  from no_windows_header_without_flag [of posix start] d u build_posix_start
  have a: "\<not> reaches (Sys ''winsock2.h'') start (ares_build_h posix start)
      \<and> \<not> reaches (Sys ''ws2tcpip.h'') start (ares_build_h posix start)
      \<and> \<not> reaches (Sys ''windows.h'') start (ares_build_h posix start)
      \<and> no_win_flag posix_built"
    by simp
  from no_windows_header_without_flag [of "with_windows posix" flagged] kw build_flagged f
  have b: "is_defined ''CARES_HAVE_WINSOCK2_H'' flagged_built
      \<and> \<not> is_defined ''CARES_HAVE_WINDOWS_H'' flagged_built"
    by (simp add: win_flags_def)
  from a b d u kw f(1) build_posix_start build_flagged show ?thesis by simp
qed

subsection \<open>The two aliases\<close>




text \<open>
  C4. The representation of the two aliases is the platform's: for all
  representations \<open>u\<close> and \<open>v\<close>, on the platform whose \<^verbatim>\<open>sys/socket.h\<close>
  declares \<^verbatim>\<open>socklen_t\<close> as \<open>u\<close> and whose \<^verbatim>\<open>sys/types.h\<close> declares \<^verbatim>\<open>ssize_t\<close>
  as \<open>v\<close>, including \<^verbatim>\<open>ares_build.h\<close> succeeds and makes \<^verbatim>\<open>ares_socklen_t\<close>
  denote \<open>u\<close> and \<^verbatim>\<open>ares_ssize_t\<close> denote \<open>v\<close>, by the same two declarations.
  So two platforms that differ in these types give the aliases different
  underlying types, from the same header.
\<close>

theorem alias_representation_per_platform:
  "\<exists>s'. ares_build_h (posix_with u v) start = Inr s'
        \<and> filter is_typedef (emitted start s') = build_typedefs
        \<and> map_of (types s') ''ares_socklen_t'' = Some u
        \<and> map_of (types s') ''ares_ssize_t'' = Some v"
proof -
  define s' where "s' =
     \<lparr>macros = [(''_SYS_SOCKET_H'', []), (''_SYS_TYPES_H'', [])] @ build_macros,
      types = [(''ares_ssize_t'', v), (''ares_socklen_t'', u),
               (''socklen_t'', u), (''ssize_t'', v)],
      out = build_defines
        @ [Include (Sys ''sys/types.h''), Include (Sys ''sys/socket.h'')]
        @ build_typedefs\<rparr>"
  have run: "ares_build_h (posix_with u v) start = Inr s'"
    by (simp add: header_defs posix_with_def start_def s'_def build_macros_def
        build_defines_def build_typedefs_def)
  have "filter is_typedef (emitted start s') = build_typedefs"
    by (simp add: emitted_def start_def s'_def build_defines_def build_typedefs_def)
  moreover have "map_of (types s') ''ares_socklen_t'' = Some u"
    and "map_of (types s') ''ares_ssize_t'' = Some v"
    by (simp_all add: s'_def)
  ultimately show ?thesis using run by blast
qed


subsection \<open>Order of the inclusions\<close>

lemma precedes_append:
  assumes "b \<notin> set xs" and "a \<in> set xs"
  shows "precedes a b (xs @ b # ys)"
proof -
  have "takeWhile (\<lambda>x. x \<noteq> b) (xs @ b # ys) = xs @ takeWhile (\<lambda>x. x \<noteq> b) (b # ys)"
    by (rule takeWhile_append2) (use assms(1) in auto)
  with assms(2) show ?thesis by (simp add: precedes_def)
qed

lemma ares_h_local:
  "ares_h \<noteq> Sys h" "ares_h \<noteq> Local ''ares_build.h''" "ares_h \<noteq> Local ''ares_config.h''"
  by (simp_all add: ares_h_def)

lemma win_includes_sys: "Include ares_h \<notin> set (win_includes s)"
  by (simp add: win_includes_def ares_h_def)

text \<open>
  C6. On a platform whose headers keep the names, in every inclusion of
  \<^verbatim>\<open>CAsyncDNSResolver.h\<close> that is not cut short by its guard and succeeds,
  the inclusions of \<^verbatim>\<open>ares_build.h\<close> and \<^verbatim>\<open>ares_config.h\<close> come before the
  inclusion of \<^verbatim>\<open>ares.h\<close>, and so do the inclusions of \<^verbatim>\<open>sys/types.h\<close> and
  \<^verbatim>\<open>sys/socket.h\<close> that \<^verbatim>\<open>ares_build.h\<close> makes when it has not been included
  before.
\<close>

theorem build_headers_before_ares_h:
  assumes K: "keeps_names ext" and G: "\<not> is_defined ''C_ASYNC_RESOLVER_H'' s"
    and R: "CAsyncDNSResolver_h ext s = Inr s'"
  shows "precedes (Include (Local ''ares_build.h'')) (Include ares_h) (emitted s s')
       \<and> precedes (Include (Local ''ares_config.h'')) (Include ares_h) (emitted s s')
       \<and> (\<not> is_defined ''__CARES_BUILD_H'' s \<longrightarrow>
            precedes (Include (Sys ''sys/types.h'')) (Include ares_h) (emitted s s')
          \<and> precedes (Include (Sys ''sys/socket.h'')) (Include ares_h) (emitted s s'))"
proof -
  from resolver_shape(2) [OF K G R] obtain B where
    o: "out s' = out s @ ([Define ''C_ASYNC_RESOLVER_H'' [], Include (Sys ''arpa/inet.h''),
                    Include (Sys ''netdb.h''), Include (Local ''ares_build.h'')]
                  @ B @ [Include (Local ''ares_config.h'')]) @ Include ares_h # []"
    and B: "if is_defined ''__CARES_BUILD_H'' s then B = []
             else \<exists>t1 t2. is_text t1 \<and> is_text t2 \<and>
                    B = build_defines
                      @ [Include (Sys ''sys/types.h''), Include (Sys ''sys/socket.h'')]
                      @ win_includes s @ [t1, t2]"
    by auto
  define P where "P = [Define ''C_ASYNC_RESOLVER_H'' [], Include (Sys ''arpa/inet.h''),
      Include (Sys ''netdb.h''), Include (Local ''ares_build.h'')]
    @ B @ [Include (Local ''ares_config.h'')]"
  have e: "emitted s s' = P @ Include ares_h # []"
    using emitted_append [OF o] by (simp add: P_def)
  have nb: "Include ares_h \<notin> set B"
  proof (cases "is_defined ''__CARES_BUILD_H'' s")
    case True
    with B show ?thesis by simp
  next
    case False
    with B obtain t1 t2 where "is_text t1" "is_text t2"
      "B = build_defines @ [Include (Sys ''sys/types.h''), Include (Sys ''sys/socket.h'')]
         @ win_includes s @ [t1, t2]"
      by auto
    then show ?thesis
      using text_not_include [of t1 ares_h] text_not_include [of t2 ares_h]
      by (auto simp: build_defines_no_include win_includes_sys ares_h_local)
  qed
  then have np: "Include ares_h \<notin> set P"
    by (simp add: P_def ares_h_local)
  have m: "Include (Local ''ares_build.h'') \<in> set P" "Include (Local ''ares_config.h'') \<in> set P"
    by (simp_all add: P_def)
  have "Include (Sys ''sys/types.h'') \<in> set P \<and> Include (Sys ''sys/socket.h'') \<in> set P"
    if "\<not> is_defined ''__CARES_BUILD_H'' s"
    using that B by (auto simp: P_def)
  with m np show ?thesis
    by (simp add: e precedes_append)
qed

theorem build_headers_before_ares_h_witness:
  "keeps_names posix \<and> \<not> is_defined ''C_ASYNC_RESOLVER_H'' start
   \<and> \<not> is_defined ''__CARES_BUILD_H'' start
   \<and> CAsyncDNSResolver_h posix start = Inr posix_resolved
   \<and> precedes (Include (Local ''ares_build.h'')) (Include ares_h) (emitted start posix_resolved)
   \<and> precedes (Include (Local ''ares_config.h'')) (Include ares_h) (emitted start posix_resolved)
   \<and> precedes (Include (Sys ''sys/types.h'')) (Include ares_h) (emitted start posix_resolved)
   \<and> precedes (Include (Sys ''sys/socket.h'')) (Include ares_h) (emitted start posix_resolved)"
  using build_headers_before_ares_h [OF keeps_posix start_free(3) resolver_posix_start]
    keeps_posix start_free(2) start_free(3) resolver_posix_start
  by simp

text \<open>
  C1. On a platform whose headers keep the names, when a translation unit
  in which the identifiers of the two typedef lines are not macros includes
  \<^verbatim>\<open>CAsyncDNSResolver.h\<close> for the first time, with \<^verbatim>\<open>ares_build.h\<close> not
  included before, and the inclusion succeeds, then the declarations of
  \<^verbatim>\<open>ares_socklen_t\<close> and \<^verbatim>\<open>ares_ssize_t\<close> come before the inclusion of
  \<^verbatim>\<open>ares.h\<close>, and \<^verbatim>\<open>ares.h\<close> is read in an environment in which both
  aliases are declared.
\<close>

theorem aliases_defined_before_ares_h:
  assumes K: "keeps_names ext" and G: "\<not> is_defined ''C_ASYNC_RESOLVER_H'' s"
    and G': "\<not> is_defined ''__CARES_BUILD_H'' s" and W: "words_free s"
    and R: "CAsyncDNSResolver_h ext s = Inr s'"
  shows "precedes (Typedef [Ident ''socklen_t''] ''ares_socklen_t'') (Include ares_h)
           (emitted s s')
       \<and> precedes (Typedef [Ident ''ssize_t''] ''ares_ssize_t'') (Include ares_h)
           (emitted s s')
       \<and> (\<exists>f m t. ext ares_h = Some f \<and> f (m, t) = (macros s', types s')
            \<and> map_of t ''ares_socklen_t'' \<noteq> None \<and> map_of t ''ares_ssize_t'' \<noteq> None)"
proof -
  note rf = resolver_first [OF K G G' W R]
  define P where "P = [Define ''C_ASYNC_RESOLVER_H'' [], Include (Sys ''arpa/inet.h''),
                    Include (Sys ''netdb.h''), Include (Local ''ares_build.h'')]
           @ build_defines
           @ [Include (Sys ''sys/types.h''), Include (Sys ''sys/socket.h'')]
           @ win_includes s @ build_typedefs
           @ [Include (Local ''ares_config.h'')]"
  from rf(1) have "out s' = out s @ (P @ Include ares_h # [])"
    by (simp add: P_def)
  then have e: "emitted s s' = P @ Include ares_h # []"
    by (rule emitted_append)
  have np: "Include ares_h \<notin> set P"
    by (simp add: P_def ares_h_local win_includes_sys build_defines_no_include
        build_typedefs_def)
  have m: "Typedef [Ident ''socklen_t''] ''ares_socklen_t'' \<in> set P"
    "Typedef [Ident ''ssize_t''] ''ares_ssize_t'' \<in> set P"
    by (simp_all add: P_def build_typedefs_def)
  from m np rf(2) show ?thesis
    by (simp add: e precedes_append)
qed

theorem aliases_defined_before_ares_h_witness:
  "keeps_names posix \<and> \<not> is_defined ''C_ASYNC_RESOLVER_H'' start
   \<and> \<not> is_defined ''__CARES_BUILD_H'' start \<and> words_free start
   \<and> CAsyncDNSResolver_h posix start = Inr posix_resolved
   \<and> precedes (Typedef [Ident ''socklen_t''] ''ares_socklen_t'') (Include ares_h)
       (emitted start posix_resolved)
   \<and> precedes (Typedef [Ident ''ssize_t''] ''ares_ssize_t'') (Include ares_h)
       (emitted start posix_resolved)"
  using aliases_defined_before_ares_h
      [OF keeps_posix start_free(3) start_free(2) start_free(1) resolver_posix_start]
    keeps_posix start_free(1) start_free(2) start_free(3) resolver_posix_start
  by simp


subsection \<open>Nothing but configuration\<close>

lemma config_only_Nil: "config_only []"
  by (simp add: config_only_def)

lemma config_only_build:
  "config_only (build_defines
      @ [Include (Sys ''sys/types.h''), Include (Sys ''sys/socket.h'')]
      @ win_includes s @ build_typedefs)"
  by (simp add: config_only_def build_defines_def win_includes_def build_typedefs_def)

lemma config_only_resolver:
  "config_only ([Define ''C_ASYNC_RESOLVER_H'' [], Include (Sys ''arpa/inet.h''),
                 Include (Sys ''netdb.h''), Include (Local ''ares_build.h'')]
      @ build_defines
      @ [Include (Sys ''sys/types.h''), Include (Sys ''sys/socket.h'')]
      @ win_includes s @ build_typedefs
      @ [Include (Local ''ares_config.h''), Include ares_h])"
  by (simp add: config_only_def build_defines_def win_includes_def build_typedefs_def)

lemma config_only_guarded:
  "config_only ([Define ''C_ASYNC_RESOLVER_H'' [], Include (Sys ''arpa/inet.h''),
                 Include (Sys ''netdb.h''), Include (Local ''ares_build.h'')]
      @ [] @ [Include (Local ''ares_config.h''), Include ares_h])"
  by (simp add: config_only_def)

text \<open>
  C7, as stated: for every translation unit that includes them, the headers
  add macro definitions, inclusions and the two typedef declarations only.
  This fails for a translation unit in which an identifier of the typedef
  lines is a macro, since the lines 52 and 53 are program text and undergo
  macro replacement. After \<^verbatim>\<open>#define typedef\<close> the two lines read
  \<^verbatim>\<open>socklen_t ares_socklen_t;\<close> and \<^verbatim>\<open>ssize_t ares_ssize_t;\<close>, which
  declare two variables, and the inclusion succeeds.
\<close>

theorem typedef_macro_adds_code:
  "ares_build_h posix blanked = Inr blanked_built
   \<and> Code [Ident ''socklen_t'', Ident ''ares_socklen_t'', Other '';'']
       \<in> set (emitted blanked blanked_built)
   \<and> Code [Ident ''ssize_t'', Ident ''ares_ssize_t'', Other '';'']
       \<in> set (emitted blanked blanked_built)
   \<and> \<not> config_only (emitted blanked blanked_built)"
  by (simp add: header_defs posix_def posix_with_def blanked_def blanked_built_def
      emitted_def config_only_def)

text \<open>
  C7, amended. For every translation unit in which none of the identifiers
  \<^verbatim>\<open>typedef\<close>, \<^verbatim>\<open>socklen_t\<close>, \<^verbatim>\<open>ssize_t\<close>, \<^verbatim>\<open>ares_socklen_t\<close> and
  \<^verbatim>\<open>ares_ssize_t\<close> is a macro, on a platform whose headers keep the names,
  what a successful inclusion of \<^verbatim>\<open>CAsyncDNSResolver.h\<close> or of
  \<^verbatim>\<open>ares_build.h\<close> adds to the translation unit consists of macro
  definitions, inclusions of headers and typedef declarations only, the
  typedef declarations being none (when a guard cuts the inclusion short)
  or the two of \<^verbatim>\<open>ares_build.h\<close>: no line of code is added, so nothing
  that could run or hold state.
\<close>

theorem shim_adds_no_code:
  assumes K: "keeps_names ext" and W: "words_free s"
  shows "(CAsyncDNSResolver_h ext s = Inr s1 \<longrightarrow> config_only (emitted s s1))
       \<and> (ares_build_h ext s = Inr s2 \<longrightarrow> config_only (emitted s s2))"
proof -
  have "config_only (emitted s s2)" if R: "ares_build_h ext s = Inr s2"
  proof (cases "is_defined ''__CARES_BUILD_H'' s")
    case True
    with R have "s2 = s" by (simp add: build_guarded)
    then show ?thesis by (simp add: emitted_same config_only_Nil)
  next
    case False
    from build_first(1) [OF K False W R]
    have "out s2 = out s @ (build_defines
           @ [Include (Sys ''sys/types.h''), Include (Sys ''sys/socket.h'')]
           @ win_includes s @ build_typedefs)"
      by simp
    from emitted_append [OF this] show ?thesis
      by (simp only: config_only_build)
  qed
  moreover have "config_only (emitted s s1)" if R: "CAsyncDNSResolver_h ext s = Inr s1"
  proof (cases "is_defined ''C_ASYNC_RESOLVER_H'' s")
    case True
    with R have "s1 = s" by (simp add: resolver_guarded)
    then show ?thesis by (simp add: emitted_same config_only_Nil)
  next
    case False
    show ?thesis
    proof (cases "is_defined ''__CARES_BUILD_H'' s")
      case True
      from resolver_shape(2) [OF K False R] True
      have "out s1 = out s @ ([Define ''C_ASYNC_RESOLVER_H'' [], Include (Sys ''arpa/inet.h''),
                 Include (Sys ''netdb.h''), Include (Local ''ares_build.h'')]
              @ [] @ [Include (Local ''ares_config.h''), Include ares_h])"
        by auto
      from emitted_append [OF this] show ?thesis
        by (simp only: config_only_guarded)
    next
      case G': False
      from resolver_first(1) [OF K False G' W R]
      have "out s1 = out s @ ([Define ''C_ASYNC_RESOLVER_H'' [], Include (Sys ''arpa/inet.h''),
                 Include (Sys ''netdb.h''), Include (Local ''ares_build.h'')]
              @ build_defines
              @ [Include (Sys ''sys/types.h''), Include (Sys ''sys/socket.h'')]
              @ win_includes s @ build_typedefs
              @ [Include (Local ''ares_config.h''), Include ares_h])"
        by simp
      from emitted_append [OF this] show ?thesis
        by (simp only: config_only_resolver)
    qed
  qed
  ultimately show ?thesis by simp
qed

theorem shim_adds_no_code_witness:
  "keeps_names posix \<and> words_free start
   \<and> CAsyncDNSResolver_h posix start = Inr posix_resolved
   \<and> config_only (emitted start posix_resolved)
   \<and> ares_build_h posix start = Inr posix_built
   \<and> config_only (emitted start posix_built)"
  using shim_adds_no_code [OF keeps_posix start_free(1), of posix_resolved posix_built]
    keeps_posix start_free(1) resolver_posix_start build_posix_start
  by simp

subsection \<open>Failure\<close>




end
